theory Spec2Isabelle
  imports
    Complex_Main
    "HOL-Library.Multiset"
    "HOL-Library.Char_ord"
    "HOL-Library.List_Lexorder"
    "HOL-Library.Product_Lexorder"
begin

section \<open>Exceptions\<close>

text \<open>
  The exceptions the modelled code can raise: a division by zero, and the assignment of
  a column whose length is not the number of rows.
\<close>

datatype py_error = ZeroDivisionError | ValueError

section \<open>The correlation pipeline: input tables\<close>

text \<open>
  \<^verbatim>\<open>gene_analysis.py\<close> works on three tables after Step 1 has loaded, oriented and
  cleaned them: the annotation table \<^verbatim>\<open>model\<close> (one row per sample, with its
  \<^verbatim>\<open>ModelID\<close> and its \<^verbatim>\<open>OncotreePrimaryDisease\<close>), the fitness matrix
  \<^verbatim>\<open>crispr\<close> (rows are genes, columns are samples) and the expression matrix
  \<^verbatim>\<open>omics_expr\<close> (rows are samples, columns are genes). A floating-point cell is a
  \<open>real option\<close>: \<open>None\<close> is NaN, the missing value. A label that pandas reads as
  missing in the disease column is \<open>None\<close> too. Row and column labels are looked up
  by name, as \<^verbatim>\<open>crispr[common_models]\<close>, \<^verbatim>\<open>crispr_sub.loc[gene]\<close> and
  \<^verbatim>\<open>omics_expr.loc[common_models]\<close> do.
\<close>

record tables =
  model_rows :: "(string \<times> string option) list"
  crispr_index :: "string list"
  crispr_columns :: "string list"
  crispr_val :: "string \<Rightarrow> string \<Rightarrow> real option"
  omics_index :: "string list"
  omics_columns :: "string list"
  omics_val :: "string \<Rightarrow> string \<Rightarrow> real option"

text \<open>
  \<^verbatim>\<open>scipy.stats.spearmanr\<close> and \<^verbatim>\<open>statsmodels.stats.multitest.multipletests\<close>
  are library routines; the pipeline is modelled over any pair of them.
  \<open>spearmanr x y\<close> is the pair (coefficient, p-value), either of which may be NaN;
  \<open>multipletests ps\<close> is the array of corrected p-values, element \<^verbatim>\<open>[1]\<close> of what
  \<^verbatim>\<open>multipletests(ps, method="fdr_bh")\<close> returns.
\<close>

record stats_lib =
  spearmanr :: "real list \<Rightarrow> real list \<Rightarrow> real option \<times> real option"
  multipletests :: "real option list \<Rightarrow> real option list"

section \<open>Strings\<close>

text \<open>\<^verbatim>\<open>str.lower()\<close>, on the ASCII letters.\<close>

definition char_lower :: "char \<Rightarrow> char" where
  "char_lower c =
     (case map_of (zip ''ABCDEFGHIJKLMNOPQRSTUVWXYZ'' ''abcdefghijklmnopqrstuvwxyz'') c of
        Some l \<Rightarrow> l
      | None \<Rightarrow> c)"

definition lower :: "string \<Rightarrow> string" where
  "lower s = map char_lower s"

text \<open>\<^verbatim>\<open>marker in col\<close>: the substring test of Python strings.\<close>

fun startswith :: "'a list \<Rightarrow> 'a list \<Rightarrow> bool" where
  "startswith s [] = True"
| "startswith [] (c # m) = False"
| "startswith (a # s) (c # m) = (a = c \<and> startswith s m)"

fun str_contains :: "'a list \<Rightarrow> 'a list \<Rightarrow> bool" where
  "str_contains m [] = (m = [])"
| "str_contains m (c # s) = (startswith (c # s) m \<or> str_contains m s)"

text \<open>\<^verbatim>\<open>sep.join(xs)\<close> and \<^verbatim>\<open>cancer.replace('/', '_')\<close>.\<close>

fun join :: "string \<Rightarrow> string list \<Rightarrow> string" where
  "join sep [] = []"
| "join sep [x] = x"
| "join sep (x # y # ys) = x @ sep @ join sep (y # ys)"

definition replace_slash :: "string \<Rightarrow> string" where
  "replace_slash s = map (\<lambda>c. if c = CHR ''/'' then CHR ''_'' else c) s"

section \<open>Step 2: the immune marker panel\<close>

definition immune_markers :: "string list" where
  "immune_markers =
     [''CD274'', ''CXCL9'', ''CXCL10'', ''STAT1'', ''IRF1'',
      ''HLA-A'', ''HLA-B'', ''B2M'', ''TAP1'', ''TGFB1'']"

text \<open>
  \<^verbatim>\<open>immune_genes = [col for col in omics_expr.columns
                     if any(marker in col for marker in immune_markers)]\<close>
\<close>

definition immune_genes :: "tables \<Rightarrow> string list" where
  "immune_genes D =
     filter (\<lambda>col. list_ex (\<lambda>marker. str_contains marker col) immune_markers)
       (omics_columns D)"

text \<open>
  \<^verbatim>\<open>DataFrame.mean(axis=1)\<close> is called with the defaults of pandas, so it skips
  missing cells: the mean of a row is the sum of its cells that are present over their
  number, and NaN when none is present (in particular when there is no column).
\<close>

definition nanmean :: "real option list \<Rightarrow> real option" where
  "nanmean vs =
     (let present = List.map_filter id vs in
      if present = [] then None
      else Some (sum_list present / real (length present)))"

text \<open>\<^verbatim>\<open>immune_proxy = omics_sub[immune_genes].mean(axis=1)\<close>, at one sample.\<close>

definition immune_proxy :: "tables \<Rightarrow> string \<Rightarrow> real option" where
  "immune_proxy D m = nanmean (map (omics_val D m) (immune_genes D))"

section \<open>Step 3: the cohort selector\<close>

text \<open>
  \<^verbatim>\<open>unique_cancers = sorted(model["OncotreePrimaryDisease"].dropna().unique())\<close>
\<close>

definition unique_cancers :: "tables \<Rightarrow> string list" where
  "unique_cancers D = sort (remdups (List.map_filter snd (model_rows D)))"

text \<open>
  \<^verbatim>\<open>cancer_models = model[model["OncotreePrimaryDisease"].str.lower()
                          == cancer.lower()]["ModelID"].unique().tolist()\<close>
  A row whose disease is missing compares unequal. The list is only ever turned
  into a set, so which of two equal identifiers \<open>remdups\<close> keeps is immaterial.
\<close>

definition cancer_models :: "tables \<Rightarrow> string \<Rightarrow> string list" where
  "cancer_models D cancer =
     remdups (map fst (filter (\<lambda>(m, d). case d of None \<Rightarrow> False
                                          | Some l \<Rightarrow> lower l = lower cancer)
                        (model_rows D)))"

text \<open>
  \<^verbatim>\<open>common_models = sorted(list(set(crispr.columns)
                            .intersection(set(omics_expr.index))
                            .intersection(set(cancer_models))))\<close>
  Python strings are ordered lexicographically by code point, which is the order of
  \<open>string\<close> here.
\<close>

definition common_models :: "tables \<Rightarrow> string \<Rightarrow> string list" where
  "common_models D cancer =
     sorted_list_of_set
       (set (crispr_columns D) \<inter> set (omics_index D) \<inter> set (cancer_models D cancer))"

section \<open>Step 3: the correlation ranker\<close>

text \<open>
  \<^verbatim>\<open>mask = ~np.isnan(x) & ~np.isnan(y)\<close>, \<^verbatim>\<open>mask.sum()\<close> and the
  selections \<^verbatim>\<open>x[mask]\<close>, \<^verbatim>\<open>y[mask]\<close>.
\<close>

definition mask :: "real option list \<Rightarrow> real option list \<Rightarrow> bool list" where
  "mask x y = map2 (\<lambda>a b. a \<noteq> None \<and> b \<noteq> None) x y"

definition mask_sum :: "bool list \<Rightarrow> nat" where
  "mask_sum m = length (filter id m)"

definition masked :: "real option list \<Rightarrow> bool list \<Rightarrow> real list" where
  "masked x m = List.map_filter (\<lambda>(v, k). if k then v else None) (zip x m)"

text \<open>
  The loop over \<^verbatim>\<open>crispr_sub.index\<close>, with \<^verbatim>\<open>results.append([gene, rho, p])\<close>:
  the records come out in the order of the genes.
\<close>

fun gene_loop ::
  "stats_lib \<Rightarrow> tables \<Rightarrow> string list \<Rightarrow> string list
     \<Rightarrow> (string \<times> real option \<times> real option) list" where
  "gene_loop L D cohort [] = []"
| "gene_loop L D cohort (gene # genes) =
     (let x = map (crispr_val D gene) cohort;
          y = map (immune_proxy D) cohort;
          m = mask x y
      in if mask_sum m < 5 then gene_loop L D cohort genes
         else (case spearmanr L (masked x m) (masked y m) of
                 (rho, p) \<Rightarrow> (gene, rho, p) # gene_loop L D cohort genes))"

text \<open>
  The paired observations of a gene in a cohort: for each sample, in the order of the
  cohort, the pair (fitness value, immune proxy value) when both are present. This is
  what remains "after dropping positions where either value is missing".
\<close>

definition paired_samples :: "tables \<Rightarrow> string list \<Rightarrow> string \<Rightarrow> (real \<times> real) list" where
  "paired_samples D cohort gene =
     List.map_filter
       (\<lambda>m. case (crispr_val D gene m, immune_proxy D m) of
               (Some a, Some b) \<Rightarrow> Some (a, b)
             | _ \<Rightarrow> None)
       cohort"

section \<open>Step 3: correction, ranking and summary\<close>

text \<open>
  A row of \<^verbatim>\<open>results_df\<close>. The column \<^verbatim>\<open>P\<close> is the field \<open>P_value\<close>. The column
  \<^verbatim>\<open>-log10P\<close>, which only the volcano plot reads, is a function of \<^verbatim>\<open>P\<close> and is
  not carried.
\<close>

record assoc_row =
  Gene :: string
  Spearman_r :: "real option"
  P_value :: "real option"
  FDR :: "real option"

record summary_row =
  Cancer :: string
  N_Models :: nat
  Top_Positive :: string
  Top_Negative :: string

record cancer_output =
  out_file :: string
  results_df :: "assoc_row list"
  summary :: summary_row

text \<open>
  \<^verbatim>\<open>DataFrame.sort_values(col)\<close> puts missing values last, ascending or descending
  (\<^verbatim>\<open>na_position='last'\<close>). The keys below order a column that way. pandas does not
  fix the order of rows with equal keys; the model sorts stably, and no theorem below
  depends on the order of ties.
\<close>

definition na_last :: "real option \<Rightarrow> bool \<times> real" where
  "na_last v = (case v of None \<Rightarrow> (True, 0) | Some r \<Rightarrow> (False, r))"

definition na_last_desc :: "real option \<Rightarrow> bool \<times> real" where
  "na_last_desc v = (case v of None \<Rightarrow> (True, 0) | Some r \<Rightarrow> (False, - r))"

definition sort_values :: "('r \<Rightarrow> real option) \<Rightarrow> 'r list \<Rightarrow> 'r list" where
  "sort_values col df = sort_key (\<lambda>r. na_last (col r)) df"

definition sort_values_desc :: "('r \<Rightarrow> real option) \<Rightarrow> 'r list \<Rightarrow> 'r list" where
  "sort_values_desc col df = sort_key (\<lambda>r. na_last_desc (col r)) df"

text \<open>The same two orders, written out on the cells: ascending and descending, NaN last.\<close>

fun na_last_le :: "real option \<Rightarrow> real option \<Rightarrow> bool" where
  "na_last_le _ None = True"
| "na_last_le None (Some y) = False"
| "na_last_le (Some x) (Some y) = (x \<le> y)"

fun na_last_ge :: "real option \<Rightarrow> real option \<Rightarrow> bool" where
  "na_last_ge _ None = True"
| "na_last_ge None (Some y) = False"
| "na_last_ge (Some x) (Some y) = (y \<le> x)"

definition mk_row :: "string \<times> real option \<times> real option \<Rightarrow> real option \<Rightarrow> assoc_row" where
  "mk_row rec f =
     (case rec of (g, rho, p) \<Rightarrow> \<lparr>Gene = g, Spearman_r = rho, P_value = p, FDR = f\<rparr>)"

text \<open>
  One iteration of the loop over \<^verbatim>\<open>unique_cancers\<close>. \<open>Inr None\<close> is
  \<^verbatim>\<open>continue\<close>: the cancer type is skipped and nothing is written for it.
  Assigning to \<^verbatim>\<open>results_df["FDR"]\<close> an array whose length is not the number of
  rows raises \<^verbatim>\<open>ValueError\<close>.
\<close>

definition analyze_cancer ::
  "stats_lib \<Rightarrow> tables \<Rightarrow> string \<Rightarrow> py_error + cancer_output option" where
  "analyze_cancer L D cancer =
     (let common = common_models D cancer in
      if length common < 25 then Inr None
      else
        let results = gene_loop L D common (crispr_index D) in
        if results = [] then Inr None
        else
          let fdr = multipletests L (map (\<lambda>(g, rho, p). p) results) in
          if length fdr \<noteq> length results then Inl ValueError
          else
            let df = sort_values FDR (map2 mk_row results fdr);
                top_pos = take 3 (sort_values_desc Spearman_r df);
                top_neg = take 3 (sort_values Spearman_r df)
            in Inr (Some
                 \<lparr>out_file = ''Cancer_Specific_Results/CRISPR_TME_'' @ replace_slash cancer
                               @ ''_Results.csv'',
                  results_df = df,
                  summary =
                    \<lparr>Cancer = cancer,
                     N_Models = length common,
                     Top_Positive = join ''; '' (map Gene top_pos),
                     Top_Negative = join ''; '' (map Gene top_neg)\<rparr>\<rparr>))"

text \<open>
  The whole of Step 3: the files written so far and the append-only
  \<^verbatim>\<open>summary_rows\<close>, threaded through the cancer types in order. An exception ends
  the run.
\<close>

record outputs =
  files :: "(string \<times> assoc_row list) list"
  summary_rows :: "summary_row list"

fun cancer_loop ::
  "stats_lib \<Rightarrow> tables \<Rightarrow> string list \<Rightarrow> outputs \<Rightarrow> py_error + outputs" where
  "cancer_loop L D [] st = Inr st"
| "cancer_loop L D (cancer # cancers) st =
     (case analyze_cancer L D cancer of
        Inl e \<Rightarrow> Inl e
      | Inr None \<Rightarrow> cancer_loop L D cancers st
      | Inr (Some r) \<Rightarrow>
          cancer_loop L D cancers
            (st\<lparr>files := files st @ [(out_file r, results_df r)],
                summary_rows := summary_rows st @ [summary r]\<rparr>))"

definition run_pipeline :: "stats_lib \<Rightarrow> tables \<Rightarrow> py_error + outputs" where
  "run_pipeline L D = cancer_loop L D (unique_cancers D) \<lparr>files = [], summary_rows = []\<rparr>"

section \<open>The multiple-testing corrector\<close>

text \<open>
  Modelled from the spec: \<^verbatim>\<open>multipletests(pvals, method="fdr_bh")\<close> of statsmodels is
  called by \<^verbatim>\<open>gene_analysis.py\<close> but is not among the repository's sources. The spec
  (4.3) names the procedure, Benjamini-Hochberg, on the raw p-values of one cancer type,
  returning the adjusted values in the order of the input. \<open>fdr_bh\<close> computes it the way
  the library does: the p-values are sorted (\<open>argsort\<close>, \<open>np_take\<close>), the k-th smallest
  of n is divided by k/n (\<open>ecdf\<close>), the running minimum is taken from the largest down
  (\<open>minimum_accumulate\<close> on the reversed array), values above 1 become 1, and each
  value is written back at the position of its p-value (\<open>scatter\<close>). The p-values are
  real numbers here.
\<close>

definition argsort :: "real list \<Rightarrow> nat list" where
  "argsort ps = sort_key (\<lambda>i. ps ! i) [0..<length ps]"

definition np_take :: "real list \<Rightarrow> nat list \<Rightarrow> real list" where
  "np_take ps idx = map (\<lambda>i. ps ! i) idx"

definition ecdf :: "nat \<Rightarrow> real list" where
  "ecdf nobs = map (\<lambda>k. real k / real nobs) [1..<nobs + 1]"

fun minimum_accumulate :: "real list \<Rightarrow> real list" where
  "minimum_accumulate [] = []"
| "minimum_accumulate [x] = [x]"
| "minimum_accumulate (x # y # ys) = x # minimum_accumulate (min x y # ys)"

definition scatter :: "nat list \<Rightarrow> real list \<Rightarrow> real list" where
  "scatter idx vals =
     fold (\<lambda>(i, v) out. out[i := v]) (zip idx vals) (replicate (length vals) 0)"

definition fdr_bh :: "real list \<Rightarrow> real list" where
  "fdr_bh ps =
     (let sortind = argsort ps;
          pvals = np_take ps sortind;
          ecdffactor = ecdf (length pvals);
          raw = map2 (\<lambda>p e. p / e) pvals ecdffactor;
          corrected = rev (minimum_accumulate (rev raw));
          clipped = map (\<lambda>v. if v > 1 then 1 else v) corrected
      in scatter sortind clipped)"

text \<open>The intermediate arrays of \<open>fdr_bh\<close>, named for the proofs.\<close>

definition bh_raw :: "real list \<Rightarrow> real list" where
  "bh_raw ps = map2 (\<lambda>p e. p / e) (np_take ps (argsort ps)) (ecdf (length (np_take ps (argsort ps))))"

definition bh_corrected :: "real list \<Rightarrow> real list" where
  "bh_corrected ps = rev (minimum_accumulate (rev (bh_raw ps)))"

definition bh_clipped :: "real list \<Rightarrow> real list" where
  "bh_clipped ps = map (\<lambda>v. if v > 1 then 1 else v) (bh_corrected ps)"

section \<open>The rank correlation coefficient\<close>

text \<open>
  Modelled from the spec: \<^verbatim>\<open>scipy.stats.spearmanr\<close> is called by
  \<^verbatim>\<open>gene_analysis.py\<close> but is not among the repository's sources. The spec (4.2) asks
  for the Spearman rank correlation coefficient, with ties and constant vectors
  following the standard convention: tied values share the average of their ranks
  (\<open>rankdata\<close>), the coefficient is the Pearson correlation of the two rank vectors, and
  it is undefined (NaN, here \<open>None\<close>) when either vector is constant. Only the
  coefficient is modelled, over the reals; the p-value, a tail probability of Student's
  t distribution, is not.
\<close>

definition rankdata :: "real list \<Rightarrow> real list" where
  "rankdata xs =
     map (\<lambda>x. (real (length (filter (\<lambda>v. v < x) xs))
               + real (length (filter (\<lambda>v. v \<le> x) xs)) + 1) / 2) xs"

definition mean :: "real list \<Rightarrow> real" where
  "mean xs = sum_list xs / real (length xs)"

definition cov :: "real list \<Rightarrow> real list \<Rightarrow> real" where
  "cov a b = sum_list (map2 (\<lambda>u v. (u - mean a) * (v - mean b)) a b)"

definition pearson :: "real list \<Rightarrow> real list \<Rightarrow> real option" where
  "pearson a b =
     (if cov a a = 0 \<or> cov b b = 0 then None
      else Some (cov a b / sqrt (cov a a * cov b b)))"

definition spearman_rho :: "real list \<Rightarrow> real list \<Rightarrow> real option" where
  "spearman_rho x y = pearson (rankdata x) (rankdata y)"

section \<open>Post-analysis overlap: the Jaccard index\<close>

text \<open>
  \<^verbatim>\<open>post_analysis_enrichment.py\<close>, Step 4:
  \<^verbatim>\<open>
  def jaccard(a, b):
      A, B = set(a), set(b)
      if not A and not B:
          return 0.0
      return len(A & B) / len(A | B)
  \<close>
  Python's \<^verbatim>\<open>/\<close> on two integers raises \<^verbatim>\<open>ZeroDivisionError\<close> when the
  divisor is zero; the model keeps that branch, so that its absence is a theorem and
  not a convention of HOL's total division. The quotient of the two cardinalities is
  taken in the reals.
\<close>

definition jaccard :: "'a list \<Rightarrow> 'a list \<Rightarrow> py_error + real" where
  "jaccard a b =
     (let A = set a; B = set b in
      if A = {} \<and> B = {} then Inr 0
      else if card (A \<union> B) = 0 then Inl ZeroDivisionError
      else Inr (real (card (A \<inter> B)) / real (card (A \<union> B))))"

section \<open>Example tables\<close>

text \<open>
  A small data set on which the pipeline is run in the examples below: 25 melanoma
  samples, 24 glioma samples, one sample without a disease label and one labelled
  \<^verbatim>\<open>MELANOMA\<close> that is in neither matrix. \<^verbatim>\<open>TP53\<close> has a fitness value in three
  samples only. The expression matrix has two marker columns, the column
  \<^verbatim>\<open>STAT1P1\<close>, whose name merely contains a marker, and an unrelated column;
  \<^verbatim>\<open>CD274\<close> is missing in one sample.
\<close>

definition demo_melanoma :: "string list" where
  "demo_melanoma =
     [''ACH-101'', ''ACH-102'', ''ACH-103'', ''ACH-104'', ''ACH-105'', ''ACH-106'', ''ACH-107'', ''ACH-108'', ''ACH-109'', ''ACH-110'', ''ACH-111'', ''ACH-112'', ''ACH-113'',
      ''ACH-114'', ''ACH-115'', ''ACH-116'', ''ACH-117'', ''ACH-118'', ''ACH-119'', ''ACH-120'', ''ACH-121'', ''ACH-122'', ''ACH-123'', ''ACH-124'', ''ACH-125'']"

definition demo_glioma :: "string list" where
  "demo_glioma =
     [''ACH-201'', ''ACH-202'', ''ACH-203'', ''ACH-204'', ''ACH-205'', ''ACH-206'', ''ACH-207'', ''ACH-208'', ''ACH-209'', ''ACH-210'', ''ACH-211'', ''ACH-212'', ''ACH-213'',
      ''ACH-214'', ''ACH-215'', ''ACH-216'', ''ACH-217'', ''ACH-218'', ''ACH-219'', ''ACH-220'', ''ACH-221'', ''ACH-222'', ''ACH-223'', ''ACH-224'']"

definition demo_tables :: tables where
  "demo_tables =
     \<lparr>model_rows =
        map (\<lambda>m. (m, Some ''Melanoma'')) demo_melanoma
        @ map (\<lambda>m. (m, Some ''Glioma'')) demo_glioma
        @ [(''ACH-301'', None), (''ACH-302'', Some ''MELANOMA'')],
      crispr_index = [''TP53 (7157)'', ''KRAS (3845)'', ''A1CF (29974)''],
      crispr_columns = demo_melanoma @ demo_glioma @ [''ACH-301''],
      crispr_val =
        (\<lambda>gene m.
           if gene = ''TP53 (7157)''
           then (if m \<in> {''ACH-101'', ''ACH-102'', ''ACH-103''} then Some 1 else None)
           else if gene = ''KRAS (3845)'' then Some (- 1 / 2)
           else Some (1 / 4)),
      omics_index = demo_melanoma @ demo_glioma,
      omics_columns = [''STAT1 (6772)'', ''CD274 (29126)'', ''ACTB (60)'', ''STAT1P1''],
      omics_val =
        (\<lambda>m col.
           if col = ''ACTB (60)'' then Some 9
           else if col = ''CD274 (29126)'' then (if m = ''ACH-101'' then None else Some 6)
           else if col = ''STAT1 (6772)'' then Some 3
           else Some 0)\<rparr>"

text \<open>
  A stand-in for the two library routines, enough to run the pipeline on the example:
  the coefficient is read off the first fitness value, and the correction is \<open>fdr_bh\<close>
  when every p-value is present. The theorems below hold for every \<open>stats_lib\<close>.
\<close>

definition demo_lib :: stats_lib where
  "demo_lib =
     \<lparr>spearmanr = (\<lambda>x y. (Some (hd x), Some \<bar>hd x\<bar>)),
      multipletests =
        (\<lambda>ps. if None \<in> set ps then map (\<lambda>_. None) ps
              else map Some (fdr_bh (map the ps)))\<rparr>"

text \<open>What the pipeline produces for a melanoma label on the example tables.\<close>

definition demo_output :: "string \<Rightarrow> cancer_output" where
  "demo_output cancer =
     \<lparr>out_file = ''Cancer_Specific_Results/CRISPR_TME_'' @ cancer @ ''_Results.csv'',
      results_df =
        [\<lparr>Gene = ''KRAS (3845)'', Spearman_r = Some (- 1 / 2), P_value = Some (1 / 2),
          FDR = Some (1 / 2)\<rparr>,
         \<lparr>Gene = ''A1CF (29974)'', Spearman_r = Some (1 / 4), P_value = Some (1 / 4),
          FDR = Some (1 / 2)\<rparr>],
      summary =
        \<lparr>Cancer = cancer,
         N_Models = 25,
         Top_Positive = ''A1CF (29974); KRAS (3845)'',
         Top_Negative = ''KRAS (3845); A1CF (29974)''\<rparr>\<rparr>"

definition demo_run :: outputs where
  "demo_run =
     \<lparr>files = [(out_file (demo_output ''MELANOMA''), results_df (demo_output ''MELANOMA'')),
               (out_file (demo_output ''Melanoma''), results_df (demo_output ''Melanoma''))],
      summary_rows = [summary (demo_output ''MELANOMA''), summary (demo_output ''Melanoma'')]\<rparr>"

section \<open>Lemmas about the pipeline\<close>



lemma mask_sum_mask:
  "mask_sum (mask (map f xs) (map g xs)) = length (filter (\<lambda>m. f m \<noteq> None \<and> g m \<noteq> None) xs)"
  by (induction xs) (auto simp: mask_def mask_sum_def)

lemma gene_loop_genes:
  "map fst (gene_loop L D cohort genes) =
     filter (\<lambda>g. 5 \<le> length (filter (\<lambda>m. crispr_val D g m \<noteq> None \<and> immune_proxy D m \<noteq> None) cohort)) genes"
  by (induction genes) (auto simp: Let_def mask_sum_mask split: prod.splits)

lemma common_models_props:
  "sorted (common_models D c)" "distinct (common_models D c)"
  "set (common_models D c) = set (crispr_columns D) \<inter> set (omics_index D) \<inter> set (cancer_models D c)"
  by (simp_all add: common_models_def)

lemma sort_enum:
  fixes e :: "'a::linorder list"
  shows "distinct e \<Longrightarrow> set e = S \<Longrightarrow> sort e = sorted_list_of_set S"
  by (metis sorted_list_of_set_sort_remdups distinct_remdups_id)

lemma cancer_models_iff:
  "m \<in> set (cancer_models D c) \<longleftrightarrow> (\<exists>l. (m, Some l) \<in> set (model_rows D) \<and> lower l = lower c)"
  by (auto simp: cancer_models_def split: option.splits) force

lemma analyze_cancer_skip:
  "length (common_models D c) < 25 \<Longrightarrow> analyze_cancer L D c = Inr None"
  by (simp add: analyze_cancer_def)

lemma analyze_cancer_no_results:
  "gene_loop L D (common_models D c) (crispr_index D) = [] \<Longrightarrow> analyze_cancer L D c = Inr None"
  by (simp add: analyze_cancer_def Let_def)

lemma analyze_cancer_Some:
  assumes "25 \<le> length (common_models D c)"
    and "gene_loop L D (common_models D c) (crispr_index D) = recs"
    and "recs \<noteq> []"
    and "multipletests L (map (\<lambda>(g, rho, p). p) recs) = fdr"
    and "length fdr = length recs"
  shows "analyze_cancer L D c = Inr (Some
           \<lparr>out_file = ''Cancer_Specific_Results/CRISPR_TME_'' @ replace_slash c @ ''_Results.csv'',
            results_df = sort_values FDR (map2 mk_row recs fdr),
            summary =
              \<lparr>Cancer = c,
               N_Models = length (common_models D c),
               Top_Positive = join ''; '' (map Gene (take 3
                  (sort_values_desc Spearman_r (sort_values FDR (map2 mk_row recs fdr))))),
               Top_Negative = join ''; '' (map Gene (take 3
                  (sort_values Spearman_r (sort_values FDR (map2 mk_row recs fdr)))))\<rparr>\<rparr>)"
  using assms by (simp add: analyze_cancer_def Let_def)

lemma analyze_cancer_SomeD:
  assumes "analyze_cancer L D c = Inr (Some r)"
  shows "25 \<le> length (common_models D c)"
    and "gene_loop L D (common_models D c) (crispr_index D) \<noteq> []"
    and "length (multipletests L (map (\<lambda>(g, rho, p). p)
            (gene_loop L D (common_models D c) (crispr_index D))))
         = length (gene_loop L D (common_models D c) (crispr_index D))"
    and "results_df r = sort_values FDR (map2 mk_row
            (gene_loop L D (common_models D c) (crispr_index D))
            (multipletests L (map (\<lambda>(g, rho, p). p)
               (gene_loop L D (common_models D c) (crispr_index D)))))"
    and "Cancer (summary r) = c"
    and "N_Models (summary r) = length (common_models D c)"
    and "Top_Positive (summary r) =
           join ''; '' (map Gene (take 3 (sort_values_desc Spearman_r (results_df r))))"
    and "Top_Negative (summary r) =
           join ''; '' (map Gene (take 3 (sort_values Spearman_r (results_df r))))"
  using assms by (auto simp: analyze_cancer_def Let_def split: if_splits)

lemma na_last_le_iff: "na_last a \<le> na_last b \<longleftrightarrow> na_last_le a b"
  by (cases a; cases b) (auto simp: na_last_def less_eq_prod_def)

lemma na_last_desc_iff: "na_last_desc a \<le> na_last_desc b \<longleftrightarrow> na_last_ge a b"
  by (cases a; cases b) (auto simp: na_last_desc_def less_eq_prod_def)

lemma sort_values_sorted: "sorted_wrt na_last_le (map col (sort_values col df))"
proof -
  have "sorted (map (\<lambda>r. na_last (col r)) (sort_values col df))"
    by (simp add: sort_values_def)
  then show ?thesis
    by (simp add: sorted_map sorted_wrt_map na_last_le_iff)
qed

lemma sort_values_desc_sorted: "sorted_wrt na_last_ge (map col (sort_values_desc col df))"
proof -
  have "sorted (map (\<lambda>r. na_last_desc (col r)) (sort_values_desc col df))"
    by (simp add: sort_values_desc_def)
  then show ?thesis
    by (simp add: sorted_map sorted_wrt_map na_last_desc_iff)
qed

lemma sort_values_mset [simp]:
  "mset (sort_values col df) = mset df" "mset (sort_values_desc col df) = mset df"
  by (simp_all add: sort_values_def sort_values_desc_def)

lemma sort_values_length [simp]:
  "length (sort_values col df) = length df" "length (sort_values_desc col df) = length df"
  by (simp_all add: sort_values_def sort_values_desc_def)

lemma sort_values_set [simp]:
  "set (sort_values col df) = set df" "set (sort_values_desc col df) = set df"
  by (simp_all add: sort_values_def sort_values_desc_def)

lemma Gene_mk_row [simp]: "Gene (mk_row rec f) = fst rec"
  by (cases rec) (simp add: mk_row_def)

lemma P_value_mk_row [simp]: "P_value (mk_row rec f) = snd (snd rec)"
  by (cases rec) (simp add: mk_row_def)

lemma FDR_mk_row [simp]: "FDR (mk_row rec f) = f"
  by (cases rec) (simp add: mk_row_def)

lemma map_Gene_map2_mk_row:
  "length fs = length recs \<Longrightarrow> map Gene (map2 mk_row recs fs) = map fst recs"
  by (induction recs fs rule: list_induct2') simp_all

lemma results_df_genes:
  assumes "analyze_cancer L D c = Inr (Some r)"
  shows "mset (map Gene (results_df r)) =
         mset (filter (\<lambda>g. 5 \<le> length (filter (\<lambda>m. crispr_val D g m \<noteq> None \<and> immune_proxy D m \<noteq> None)
                                      (common_models D c)))
                 (crispr_index D))"
proof -
  let ?recs = "gene_loop L D (common_models D c) (crispr_index D)"
  let ?fdr = "multipletests L (map (\<lambda>(g, rho, p). p) ?recs)"
  from analyze_cancer_SomeD(3,4) [OF assms]
  have len: "length ?fdr = length ?recs"
    and df: "results_df r = sort_values FDR (map2 mk_row ?recs ?fdr)" .
  have "mset (results_df r) = mset (map2 mk_row ?recs ?fdr)"
    unfolding df by (rule sort_values_mset)
  then have "image_mset Gene (mset (results_df r))
             = image_mset Gene (mset (map2 mk_row ?recs ?fdr))"
    by (rule arg_cong)
  then have "mset (map Gene (results_df r)) = mset (map Gene (map2 mk_row ?recs ?fdr))"
    by (simp only: mset_map)
  also have "\<dots> = mset (map fst ?recs)" using len by (simp only: map_Gene_map2_mk_row)
  finally show ?thesis by (simp only: gene_loop_genes)
qed

lemma masked_fst:
  "masked (map f xs) (mask (map f xs) (map g xs))
   = map fst (List.map_filter (\<lambda>m. case (f m, g m) of (Some a, Some b) \<Rightarrow> Some (a, b) | _ \<Rightarrow> None) xs)"
  by (induction xs) (auto simp: masked_def mask_def List.map_filter_simps split: option.splits)

lemma masked_snd:
  "masked (map g xs) (mask (map f xs) (map g xs))
   = map snd (List.map_filter (\<lambda>m. case (f m, g m) of (Some a, Some b) \<Rightarrow> Some (a, b) | _ \<Rightarrow> None) xs)"
  by (induction xs) (auto simp: masked_def mask_def List.map_filter_simps split: option.splits)

lemma length_paired_samples:
  "length (paired_samples D cohort g)
   = length (filter (\<lambda>m. crispr_val D g m \<noteq> None \<and> immune_proxy D m \<noteq> None) cohort)"
  unfolding paired_samples_def
  by (induction cohort) (auto simp: List.map_filter_simps split: option.splits)

lemma gene_loop_genes_paired:
  "map fst (gene_loop L D cohort genes)
   = filter (\<lambda>g. 5 \<le> length (paired_samples D cohort g)) genes"
  by (simp add: gene_loop_genes length_paired_samples)

lemma gene_loop_record:
  "(g, rho, p) \<in> set (gene_loop L D cohort genes) \<Longrightarrow>
   (rho, p) = spearmanr L (map fst (paired_samples D cohort g)) (map snd (paired_samples D cohort g))"
proof (induction genes)
  case Nil
  then show ?case by simp
next
  case (Cons gene genes)
  then show ?case
    by (auto simp: Let_def masked_fst masked_snd paired_samples_def split: if_splits prod.splits)
qed


lemma cancer_loop_files:
  "cancer_loop L D cs st = Inr out \<Longrightarrow>
   f \<in> set (files out) \<longleftrightarrow>
     f \<in> set (files st) \<or> (\<exists>c\<in>set cs. \<exists>r. analyze_cancer L D c = Inr (Some r) \<and> f = (out_file r, results_df r))"
proof (induction cs arbitrary: st)
  case Nil
  then show ?case by simp
next
  case (Cons c cs)
  show ?case
  proof (cases "analyze_cancer L D c")
    case (Inl e)
    with Cons.prems show ?thesis by simp
  next
    case (Inr o1)
    show ?thesis
    proof (cases o1)
      case None
      with Inr Cons.prems have "cancer_loop L D cs st = Inr out" by simp
      from Cons.IH [OF this] Inr None show ?thesis by auto
    next
      case (Some r)
      with Inr Cons.prems have "cancer_loop L D cs
            (st\<lparr>files := files st @ [(out_file r, results_df r)],
                summary_rows := summary_rows st @ [summary r]\<rparr>) = Inr out" by simp
      from Cons.IH [OF this] Inr Some show ?thesis by auto
    qed
  qed
qed


lemma run_pipeline_files:
  "run_pipeline L D = Inr out \<Longrightarrow>
   f \<in> set (files out) \<longleftrightarrow>
     (\<exists>c\<in>set (unique_cancers D). \<exists>r. analyze_cancer L D c = Inr (Some r) \<and> f = (out_file r, results_df r))"
  unfolding run_pipeline_def by (drule cancer_loop_files [where f = f]) simp







section \<open>Properties of the multiple-testing corrector\<close>

lemma length_minimum_accumulate [simp]: "length (minimum_accumulate xs) = length xs"
  by (induction xs rule: minimum_accumulate.induct) auto




lemma Min_insert_min:
  fixes x :: real
  shows "finite A \<Longrightarrow> Min (insert (min x y) A) = Min (insert x (insert y A))"
  by (cases "A = {}") (simp_all add: min.assoc)

lemma minimum_accumulate_nth:
  "k < length xs \<Longrightarrow> minimum_accumulate xs ! k = Min (set (take (Suc k) xs))"
proof (induction xs arbitrary: k rule: minimum_accumulate.induct)
  case 1 then show ?case by simp
next
  case (2 x) then show ?case by simp
next
  case (3 x y ys)
  show ?case
  proof (cases k)
    case 0 then show ?thesis by simp
  next
    case (Suc k')
    with 3 have "minimum_accumulate (min x y # ys) ! k' = Min (set (take (Suc k') (min x y # ys)))"
      by simp
    moreover have "Min (set (take (Suc k') (min x y # ys))) = Min (set (take (Suc k) (x # y # ys)))"
      using Suc by (simp add: Min_insert_min)
    ultimately show ?thesis using Suc by simp
  qed
qed

lemma suffix_min_nth:
  assumes "k < length xs"
  shows "rev (minimum_accumulate (rev xs)) ! k = Min (set (drop k xs))"
proof -
  have "rev (minimum_accumulate (rev xs)) ! k = minimum_accumulate (rev xs) ! (length xs - Suc k)"
    using assms by (simp add: rev_nth)
  also have "\<dots> = Min (set (take (Suc (length xs - Suc k)) (rev xs)))"
    using assms by (intro minimum_accumulate_nth) simp
  also have "Suc (length xs - Suc k) = length xs - k" using assms by simp
  also have "take (length xs - k) (rev xs) = rev (drop k xs)"
    by (simp add: rev_drop)
  finally show ?thesis by simp
qed

lemma suffix_min_step:
  assumes "Suc k < length xs"
  shows "rev (minimum_accumulate (rev xs)) ! k
         = min (xs ! k) (rev (minimum_accumulate (rev xs)) ! Suc k)"
proof -
  from assms have d: "drop k xs = xs ! k # drop (Suc k) xs"
    by (simp add: Cons_nth_drop_Suc)
  from assms have ne: "set (drop (Suc k) xs) \<noteq> {}" by simp
  from assms have "rev (minimum_accumulate (rev xs)) ! k = Min (set (drop k xs))"
    by (simp add: suffix_min_nth)
  also have "\<dots> = min (xs ! k) (Min (set (drop (Suc k) xs)))"
    using ne by (simp add: d)
  also have "Min (set (drop (Suc k) xs)) = rev (minimum_accumulate (rev xs)) ! Suc k"
    using assms by (simp add: suffix_min_nth)
  finally show ?thesis .
qed

lemma suffix_min_le:
  assumes "k < length xs"
  shows "rev (minimum_accumulate (rev xs)) ! k \<le> xs ! k"
proof -
  from assms have "xs ! k \<in> set (drop k xs)"
    by (metis Cons_nth_drop_Suc list.set_intros(1))
  then show ?thesis using assms by (simp add: suffix_min_nth)
qed


lemma argsort_length [simp]: "length (argsort ps) = length ps"
  by (simp add: argsort_def)

lemma argsort_set: "set (argsort ps) = {..<length ps}"
  by (auto simp: argsort_def)

lemma argsort_distinct: "distinct (argsort ps)"
  by (simp add: argsort_def)

lemma argsort_sorted: "sorted (np_take ps (argsort ps))"
  by (simp add: argsort_def np_take_def)

lemma fold_update_length [simp]:
  "length (fold (\<lambda>(i, v) out. out[i := v]) ivs out) = length out"
  by (induction ivs arbitrary: out) (auto split: prod.splits)

lemma fold_update_notin:
  "i \<notin> fst ` set ivs \<Longrightarrow> fold (\<lambda>(i, v) out. out[i := v]) ivs out ! i = out ! i"
  by (induction ivs arbitrary: out) (auto split: prod.splits)

lemma fold_update_nth:
  "distinct (map fst ivs) \<Longrightarrow> k < length ivs \<Longrightarrow> fst (ivs ! k) < length out \<Longrightarrow>
   fold (\<lambda>(i, v) out. out[i := v]) ivs out ! fst (ivs ! k) = snd (ivs ! k)"
proof (induction ivs arbitrary: out k)
  case Nil
  then show ?case by simp
next
  case (Cons iv ivs)
  obtain i v where iv: "iv = (i, v)" by (cases iv)
  show ?case
  proof (cases k)
    case 0
    with Cons.prems iv show ?thesis by (simp add: fold_update_notin)
  next
    case (Suc k')
    with Cons.prems iv have "fold (\<lambda>(i, v) out. out[i := v]) ivs (out[i := v]) ! fst (ivs ! k') = snd (ivs ! k')"
      by (intro Cons.IH) simp_all
    with Suc iv show ?thesis by simp
  qed
qed

lemma scatter_length [simp]: "length (scatter idx vals) = length vals"
  by (simp add: scatter_def)

lemma scatter_nth:
  assumes "distinct idx" "length idx = length vals" "set idx \<subseteq> {..<length vals}" "k < length vals"
  shows "scatter idx vals ! (idx ! k) = vals ! k"
proof -
  have "fold (\<lambda>(i, v) out. out[i := v]) (zip idx vals) (replicate (length vals) 0)
          ! fst (zip idx vals ! k) = snd (zip idx vals ! k)"
  proof (rule fold_update_nth)
    show "distinct (map fst (zip idx vals))" using assms by simp
    show "k < length (zip idx vals)" using assms by simp
    have "idx ! k \<in> set idx" using assms by simp
    with assms(3) have "idx ! k < length vals" by blast
    with assms show "fst (zip idx vals ! k) < length (replicate (length vals) (0::real))"
      by simp
  qed
  with assms show ?thesis by (simp add: scatter_def)
qed


lemma ecdf_length [simp]: "length (ecdf n) = n"
  by (simp add: ecdf_def)

lemma ecdf_nth: "k < n \<Longrightarrow> ecdf n ! k = real (Suc k) / real n"
  by (simp add: ecdf_def nth_map_upt del: upt_Suc)

lemma fdr_bh_scatter: "fdr_bh ps = scatter (argsort ps) (bh_clipped ps)"
  by (simp add: fdr_bh_def bh_clipped_def bh_corrected_def bh_raw_def Let_def)

lemma np_take_length [simp]: "length (np_take ps idx) = length idx"
  by (simp add: np_take_def)

lemma bh_lengths [simp]:
  "length (bh_raw ps) = length ps" "length (bh_corrected ps) = length ps"
  "length (bh_clipped ps) = length ps"
  by (simp_all add: bh_raw_def bh_corrected_def bh_clipped_def)

lemma fdr_bh_length [simp]: "length (fdr_bh ps) = length ps"
  by (simp add: fdr_bh_scatter)

lemma bh_raw_nth:
  "k < length ps \<Longrightarrow>
   bh_raw ps ! k = np_take ps (argsort ps) ! k / (real (Suc k) / real (length ps))"
  by (simp add: bh_raw_def ecdf_nth)



lemma fdr_bh_nth:
  assumes "k < length ps"
  shows "fdr_bh ps ! (argsort ps ! k) = bh_clipped ps ! k"
  unfolding fdr_bh_scatter
  using assms by (intro scatter_nth) (simp_all add: argsort_distinct argsort_set)

lemma argsort_position:
  assumes "i < length ps"
  obtains k where "k < length ps" "argsort ps ! k = i"
proof -
  from assms have "i \<in> set (argsort ps)" by (simp add: argsort_set)
  then obtain k where "k < length (argsort ps)" "argsort ps ! k = i"
    by (auto simp: in_set_conv_nth)
  then show ?thesis using that by simp
qed


lemma sorted_pvals_nth:
  "a \<le> b \<Longrightarrow> b < length ps \<Longrightarrow> np_take ps (argsort ps) ! a \<le> np_take ps (argsort ps) ! b"
  using argsort_sorted [of ps] by (simp add: sorted_iff_nth_mono)

lemma bh_corrected_tie_step:
  assumes nonneg: "\<forall>p\<in>set ps. 0 \<le> p"
    and k: "Suc k < length ps"
    and tie: "np_take ps (argsort ps) ! k = np_take ps (argsort ps) ! Suc k"
  shows "bh_corrected ps ! k = bh_corrected ps ! Suc k"
proof -
  let ?q = "np_take ps (argsort ps) ! Suc k"
  let ?n = "real (length ps)"
  from k have "argsort ps ! Suc k \<in> set (argsort ps)" by simp
  then have "argsort ps ! Suc k < length ps" by (simp add: argsort_set)
  then have "ps ! (argsort ps ! Suc k) \<in> set ps" by simp
  with nonneg k have q0: "0 \<le> ?q" by (simp add: np_take_def)
  from k have "0 < length ps" by linarith
  then have n0: "0 < ?n" by simp
  have r1: "bh_raw ps ! k = ?q / (real (Suc k) / ?n)"
    using k tie by (simp add: bh_raw_nth)
  have r2: "bh_raw ps ! Suc k = ?q / (real (Suc (Suc k)) / ?n)"
    using k by (simp add: bh_raw_nth)
  have e_le: "real (Suc k) / ?n \<le> real (Suc (Suc k)) / ?n"
    using n0 by (simp add: divide_right_mono)
  have e_pos: "0 < real (Suc k) / ?n" using n0 by simp
  have "?q \<le> ?q" by simp
  from q0 this e_pos e_le
  have "?q / (real (Suc (Suc k)) / ?n) \<le> ?q / (real (Suc k) / ?n)"
    by (rule frac_le)
  with r1 r2 have le: "bh_raw ps ! Suc k \<le> bh_raw ps ! k" by simp
  have "bh_corrected ps ! Suc k \<le> bh_raw ps ! Suc k"
    unfolding bh_corrected_def using k by (intro suffix_min_le) simp
  with le have "bh_corrected ps ! Suc k \<le> bh_raw ps ! k" by simp
  moreover have "bh_corrected ps ! k = min (bh_raw ps ! k) (bh_corrected ps ! Suc k)"
    unfolding bh_corrected_def using k by (intro suffix_min_step) simp
  ultimately show ?thesis by simp
qed

lemma bh_corrected_tie:
  assumes nonneg: "\<forall>p\<in>set ps. 0 \<le> p"
    and "a \<le> b" "b < length ps"
    and tie: "np_take ps (argsort ps) ! a = np_take ps (argsort ps) ! b"
  shows "bh_corrected ps ! a = bh_corrected ps ! b"
  using assms(2,3) tie
proof (induction b rule: dec_induct)
  case base
  show ?case by simp
next
  case (step k)
  let ?pv = "np_take ps (argsort ps)"
  from step.prems(1) have kl: "k < length ps" by linarith
  from step.hyps(1) kl have l1: "?pv ! a \<le> ?pv ! k" by (rule sorted_pvals_nth)
  have "k \<le> Suc k" by simp
  from this step.prems(1) have l2: "?pv ! k \<le> ?pv ! Suc k" by (rule sorted_pvals_nth)
  from l1 l2 step.prems have e1: "?pv ! a = ?pv ! k" and e2: "?pv ! k = ?pv ! Suc k" by simp_all
  from step.IH kl e1 have "bh_corrected ps ! a = bh_corrected ps ! k" by simp
  also have "\<dots> = bh_corrected ps ! Suc k"
    using nonneg step.prems e2 by (intro bh_corrected_tie_step)
  finally show ?case .
qed




text \<open>
  The adjusted value of a p-value depends on that p-value and on the multiset of all
  p-values only: it stays with its p-value when the input is reordered.
\<close>

lemma np_take_argsort: "np_take ps (argsort ps) = sort ps"
proof (rule sym, rule properties_for_sort)
  have "mset (np_take ps (argsort ps)) = image_mset (\<lambda>i. ps ! i) (mset (argsort ps))"
    by (simp add: np_take_def)
  also have "mset (argsort ps) = mset [0..<length ps]" by (simp add: argsort_def)
  also have "image_mset (\<lambda>i. ps ! i) (mset [0..<length ps]) = mset (map (\<lambda>i. ps ! i) [0..<length ps])"
    by simp
  also have "map (\<lambda>i. ps ! i) [0..<length ps] = ps" by (rule map_nth)
  finally show "mset (np_take ps (argsort ps)) = mset ps" .
  show "sorted (np_take ps (argsort ps))" by (rule argsort_sorted)
qed

lemma bh_clipped_sort:
  "bh_clipped ps
   = map (\<lambda>v. if v > 1 then 1 else v)
       (rev (minimum_accumulate (rev (map2 (\<lambda>p e. p / e) (sort ps) (ecdf (length ps))))))"
  by (simp add: bh_clipped_def bh_corrected_def bh_raw_def np_take_argsort)

lemma bh_clipped_mset: "mset ps' = mset ps \<Longrightarrow> bh_clipped ps' = bh_clipped ps"
proof -
  assume m: "mset ps' = mset ps"
  then have "sort ps' = sort ps" by (metis properties_for_sort mset_sort sorted_sort)
  moreover from m have "length ps' = length ps" by (rule mset_eq_length)
  ultimately show ?thesis by (simp add: bh_clipped_sort)
qed

lemma bh_clipped_tie:
  assumes nonneg: "\<forall>p\<in>set ps. 0 \<le> p"
    and a: "a < length ps" and b: "b < length ps"
    and tie: "sort ps ! a = sort ps ! b"
  shows "bh_clipped ps ! a = bh_clipped ps ! b"
proof -
  have *: "bh_clipped ps ! a = bh_clipped ps ! b"
    if "a \<le> b" "b < length ps" "sort ps ! a = sort ps ! b" for a b
  proof -
    from that(2) that(1) have al: "a < length ps" by simp
    from nonneg that have "bh_corrected ps ! a = bh_corrected ps ! b"
      by (intro bh_corrected_tie) (simp_all add: np_take_argsort)
    with al that(2) show ?thesis by (simp add: bh_clipped_def)
  qed
  show ?thesis
  proof (cases "a \<le> b")
    case True
    from True b tie show ?thesis by (rule *)
  next
    case False
    then have "b \<le> a" by simp
    from this a tie [symmetric] have "bh_clipped ps ! b = bh_clipped ps ! a" by (rule *)
    then show ?thesis by simp
  qed
qed

lemma fdr_bh_value:
  assumes nonneg: "\<forall>p\<in>set ps. 0 \<le> p"
    and i: "i < length ps" and k: "k < length ps" and e: "sort ps ! k = ps ! i"
  shows "fdr_bh ps ! i = bh_clipped ps ! k"
proof -
  from i obtain a where a: "a < length ps" "argsort ps ! a = i" by (rule argsort_position)
  have "sort ps ! a = ps ! i"
    using a by (simp add: np_take_argsort [symmetric] np_take_def)
  with e have "sort ps ! a = sort ps ! k" by simp
  with nonneg a(1) k have "bh_clipped ps ! a = bh_clipped ps ! k" by (rule bh_clipped_tie)
  moreover have "fdr_bh ps ! i = bh_clipped ps ! a" using fdr_bh_nth [OF a(1)] a(2) by simp
  ultimately show ?thesis by simp
qed

lemma fdr_bh_aligned:
  assumes nonneg: "\<forall>p\<in>set ps. 0 \<le> p"
    and perm: "mset ps' = mset ps"
    and i: "i < length ps" and j: "j < length ps'"
    and e: "ps' ! j = ps ! i"
  shows "fdr_bh ps' ! j = fdr_bh ps ! i"
proof -
  from perm have len: "length ps' = length ps" by (rule mset_eq_length)
  from perm have set: "set ps' = set ps" by (rule mset_eq_setD)
  from perm have srt: "sort ps' = sort ps" by (metis properties_for_sort mset_sort sorted_sort)
  from i have "ps ! i \<in> set (sort ps)" by simp
  then obtain k where "k < length (sort ps)" and k2: "sort ps ! k = ps ! i"
    unfolding in_set_conv_nth by blast
  then have k: "k < length ps" "sort ps ! k = ps ! i" by simp_all
  from nonneg i k have "fdr_bh ps ! i = bh_clipped ps ! k" by (rule fdr_bh_value)
  moreover have "fdr_bh ps' ! j = bh_clipped ps' ! k"
  proof (rule fdr_bh_value)
    show "\<forall>p\<in>set ps'. 0 \<le> p" using nonneg set by simp
    show "j < length ps'" by (rule j)
    show "k < length ps'" using k len by simp
    show "sort ps' ! k = ps' ! j" using k e srt by simp
  qed
  moreover have "bh_clipped ps' = bh_clipped ps" using perm by (rule bh_clipped_mset)
  ultimately show ?thesis by simp
qed

section \<open>The pipeline on the example tables\<close>

lemma lower_Melanoma: "lower ''Melanoma'' = ''melanoma''" "lower ''Glioma'' = ''glioma''" "lower ''MELANOMA'' = ''melanoma''"
  by (simp_all add: lower_def char_lower_def)

lemma demo_cancer_models: "set (cancer_models demo_tables ''Melanoma'') = set demo_melanoma \<union> {''ACH-302''}"
  by (auto simp: cancer_models_def demo_tables_def lower_Melanoma)

lemma demo_melanoma_sorted: "sorted demo_melanoma" "distinct demo_melanoma" "length demo_melanoma = 25"
  by (simp_all add: demo_melanoma_def)

lemma demo_glioma_sorted: "sorted demo_glioma" "distinct demo_glioma" "length demo_glioma = 24"
  by (simp_all add: demo_glioma_def)

lemma demo_cancer_models_glioma: "set (cancer_models demo_tables ''Glioma'') = set demo_glioma"
  by (auto simp: cancer_models_def demo_tables_def lower_Melanoma)

lemma demo_not_in: "''ACH-302'' \<notin> set demo_glioma" "''ACH-302'' \<notin> set demo_melanoma"
  by (simp_all add: demo_glioma_def demo_melanoma_def)

lemma demo_common_melanoma: "common_models demo_tables ''Melanoma'' = demo_melanoma"
proof -
  have "set (crispr_columns demo_tables) \<inter> set (omics_index demo_tables)
          \<inter> set (cancer_models demo_tables ''Melanoma'') = set demo_melanoma"
    unfolding demo_cancer_models using demo_not_in by (auto simp: demo_tables_def)
  then show ?thesis
    unfolding common_models_def
    by (simp add: sorted_list_of_set.idem_if_sorted_distinct demo_melanoma_sorted)
qed

lemma demo_common_glioma: "common_models demo_tables ''Glioma'' = demo_glioma"
proof -
  have "set (crispr_columns demo_tables) \<inter> set (omics_index demo_tables)
          \<inter> set (cancer_models demo_tables ''Glioma'') = set demo_glioma"
    unfolding demo_cancer_models_glioma by (auto simp: demo_tables_def)
  then show ?thesis
    unfolding common_models_def
    by (simp add: sorted_list_of_set.idem_if_sorted_distinct demo_glioma_sorted)
qed

lemma demo_immune_genes:
  "immune_genes demo_tables = [''STAT1 (6772)'', ''CD274 (29126)'', ''STAT1P1'']"
  by (simp add: immune_genes_def demo_tables_def immune_markers_def)

lemma demo_immune_proxy:
  "immune_proxy demo_tables m = Some (if m = ''ACH-101'' then 3 / 2 else 3)"
  by (simp add: immune_proxy_def demo_immune_genes nanmean_def List.map_filter_simps)
     (simp add: demo_tables_def List.map_filter_simps)

lemma demo_paired_TP53:
  "length (paired_samples demo_tables demo_melanoma ''TP53 (7157)'') = 3"
  unfolding length_paired_samples
  by (simp add: demo_immune_proxy) (simp add: demo_tables_def demo_melanoma_def)

lemma demo_crispr_val:
  "crispr_val demo_tables ''KRAS (3845)'' m = Some (- 1 / 2)"
  "crispr_val demo_tables ''A1CF (29974)'' m = Some (1 / 4)"
  by (simp_all add: demo_tables_def)

lemma demo_paired_KRAS:
  "paired_samples demo_tables cohort ''KRAS (3845)''
   = map (\<lambda>m. (- 1 / 2, if m = ''ACH-101'' then 3 / 2 else 3)) cohort"
  unfolding paired_samples_def
  by (induction cohort) (simp_all add: demo_immune_proxy demo_crispr_val List.map_filter_simps)

lemma demo_paired_A1CF:
  "paired_samples demo_tables cohort ''A1CF (29974)''
   = map (\<lambda>m. (1 / 4, if m = ''ACH-101'' then 3 / 2 else 3)) cohort"
  unfolding paired_samples_def
  by (induction cohort) (simp_all add: demo_immune_proxy demo_crispr_val List.map_filter_simps)

lemma demo_gene_loop:
  "gene_loop demo_lib demo_tables demo_melanoma (crispr_index demo_tables)
   = [(''KRAS (3845)'', Some (- 1 / 2), Some (1 / 2)), (''A1CF (29974)'', Some (1 / 4), Some (1 / 4))]"
proof -
  let ?recs = "gene_loop demo_lib demo_tables demo_melanoma (crispr_index demo_tables)"
  have idx: "crispr_index demo_tables = [''TP53 (7157)'', ''KRAS (3845)'', ''A1CF (29974)'']"
    by (simp add: demo_tables_def)
  have genes: "map fst ?recs = [''KRAS (3845)'', ''A1CF (29974)'']"
    unfolding gene_loop_genes_paired idx
    by (simp add: demo_paired_TP53 demo_paired_KRAS demo_paired_A1CF demo_melanoma_sorted)
  then obtain r1 p1 r2 p2 where recs: "?recs = [(''KRAS (3845)'', r1, p1), (''A1CF (29974)'', r2, p2)]"
    by (auto simp: map_eq_Cons_conv)
  have hdm: "hd (map f demo_melanoma) = f ''ACH-101''" for f :: "string \<Rightarrow> real"
    by (simp add: demo_melanoma_def)
  have "(''KRAS (3845)'', r1, p1) \<in> set ?recs" unfolding recs by simp
  from gene_loop_record [OF this] have k: "r1 = Some (- 1 / 2)" "p1 = Some (1 / 2)"
    by (simp_all add: demo_paired_KRAS demo_lib_def o_def hdm)
  have "(''A1CF (29974)'', r2, p2) \<in> set ?recs" unfolding recs by simp
  from gene_loop_record [OF this] have a: "r2 = Some (1 / 4)" "p2 = Some (1 / 4)"
    by (simp_all add: demo_paired_A1CF demo_lib_def o_def hdm)
  from recs k a show ?thesis by simp
qed

lemma demo_fdr_bh: "fdr_bh [1 / 2, 1 / 4] = [1 / 2, 1 / 2]"
proof -
  have u: "[0..<2] = [0, 1]" by (simp add: upt_rec)
  have a: "argsort [1 / 2, 1 / 4] = [1, 0]" by (simp add: argsort_def u)
  have t: "np_take [1 / 2, 1 / 4] [1, 0] = [1 / 4, 1 / 2]" by (simp add: np_take_def)
  have l: "length [1 / 4, 1 / 2 :: real] = 2" by simp
  have e: "ecdf 2 = [1 / 2, 1]" by (simp add: ecdf_def upt_rec)
  have r: "map2 (\<lambda>p e. p / e) [1 / 4, 1 / 2] [1 / 2, 1 :: real] = [1 / 2, 1 / 2]" by simp
  have m: "rev (minimum_accumulate (rev [1 / 2, 1 / 2])) = [1 / 2, 1 / 2]" by simp
  have c: "map (\<lambda>v. if v > 1 then 1 else v) [1 / 2, 1 / 2 :: real] = [1 / 2, 1 / 2]" by simp
  have s: "scatter [1, 0] [1 / 2, 1 / 2] = [1 / 2, 1 / 2]" by (simp add: scatter_def)
  show ?thesis unfolding fdr_bh_def Let_def a t l e r m c s ..
qed

lemma demo_multipletests:
  "multipletests demo_lib [Some (1 / 2), Some (1 / 4)] = [Some (1 / 2), Some (1 / 2)]"
  by (simp add: demo_lib_def demo_fdr_bh)


lemma demo_common_MELANOMA: "common_models demo_tables ''MELANOMA'' = demo_melanoma"
proof -
  have "cancer_models demo_tables ''MELANOMA'' = cancer_models demo_tables ''Melanoma''"
    unfolding cancer_models_def lower_Melanoma ..
  then have "common_models demo_tables ''MELANOMA'' = common_models demo_tables ''Melanoma''"
    by (simp add: common_models_def)
  then show ?thesis by (simp add: demo_common_melanoma)
qed

lemma demo_analyze:
  assumes c: "common_models demo_tables c = demo_melanoma" and rs: "replace_slash c = c"
  shows "analyze_cancer demo_lib demo_tables c = Inr (Some (demo_output c))"
proof -
  let ?recs = "[(''KRAS (3845)'', Some (- 1 / 2), Some (1 / 2)),
                (''A1CF (29974)'', Some (1 / 4), Some (1 / 4 :: real))]"
  let ?fdr = "[Some (1 / 2), Some (1 / 2 :: real)]"
  have big: "25 \<le> length (common_models demo_tables c)"
    by (simp add: c demo_melanoma_sorted)
  have recs: "gene_loop demo_lib demo_tables (common_models demo_tables c)
                (crispr_index demo_tables) = ?recs"
    unfolding c by (rule demo_gene_loop)
  have ne: "?recs \<noteq> []" by simp
  have fdr: "multipletests demo_lib (map (\<lambda>(g, rho, p). p) ?recs) = ?fdr"
    using demo_multipletests by simp
  have len: "length ?fdr = length ?recs" by simp
  have df: "sort_values FDR (map2 mk_row ?recs ?fdr) = results_df (demo_output c)"
    by (simp add: sort_values_def na_last_def mk_row_def demo_output_def)
  have pos: "join ''; '' (map Gene (take 3 (sort_values_desc Spearman_r (results_df (demo_output c)))))
             = ''A1CF (29974); KRAS (3845)''"
    by (simp add: sort_values_desc_def na_last_desc_def demo_output_def)
  have neg: "join ''; '' (map Gene (take 3 (sort_values Spearman_r (results_df (demo_output c)))))
             = ''KRAS (3845); A1CF (29974)''"
    by (simp add: sort_values_def na_last_def demo_output_def)
  have n: "length (common_models demo_tables c) = 25"
    by (simp add: c demo_melanoma_sorted)
  show ?thesis
    unfolding analyze_cancer_Some [OF big recs ne fdr len] df pos neg rs n
    by (simp add: demo_output_def)
qed

lemma demo_analyze_Melanoma:
  "analyze_cancer demo_lib demo_tables ''Melanoma'' = Inr (Some (demo_output ''Melanoma''))"
  by (rule demo_analyze [OF demo_common_melanoma]) (simp add: replace_slash_def)

lemma demo_analyze_MELANOMA:
  "analyze_cancer demo_lib demo_tables ''MELANOMA'' = Inr (Some (demo_output ''MELANOMA''))"
  by (rule demo_analyze [OF demo_common_MELANOMA]) (simp add: replace_slash_def)

lemma demo_analyze_Glioma: "analyze_cancer demo_lib demo_tables ''Glioma'' = Inr None"
  by (rule analyze_cancer_skip) (simp add: demo_common_glioma demo_glioma_sorted)

lemma demo_unique_cancers: "unique_cancers demo_tables = [''Glioma'', ''MELANOMA'', ''Melanoma'']"
proof -
  have "set (List.map_filter snd (model_rows demo_tables))
        = set [''Glioma'', ''MELANOMA'', ''Melanoma'']"
    by (auto simp: demo_tables_def List.map_filter_def demo_melanoma_def demo_glioma_def)
  then have "sorted_list_of_set (set (List.map_filter snd (model_rows demo_tables)))
        = sorted_list_of_set (set [''Glioma'', ''MELANOMA'', ''Melanoma''])"
    by (rule arg_cong)
  also have "\<dots> = [''Glioma'', ''MELANOMA'', ''Melanoma'']"
    by (rule sorted_list_of_set.idem_if_sorted_distinct) simp_all
  finally show ?thesis
    unfolding unique_cancers_def by (simp only: sorted_list_of_set_sort_remdups)
qed

lemma demo_run_pipeline: "run_pipeline demo_lib demo_tables = Inr demo_run"
  unfolding run_pipeline_def demo_unique_cancers
  by (simp add: demo_analyze_Glioma demo_analyze_MELANOMA demo_analyze_Melanoma demo_run_def)

section \<open>The minimum cohort size\<close>



section \<open>The five-pair rule\<close>

text \<open>
  Claim C2. The genes with a record are exactly the genes of the fitness matrix with at
  least 5 paired observations, in the order of the matrix; the coefficient and p-value
  of a record are those of \<open>spearmanr\<close> on the paired observations; and in the table
  written for a processed cancer type a gene appears if and only if it is a gene of the
  matrix with at least 5 paired observations in that cohort.
\<close>

theorem association_record_iff:
  "map fst (gene_loop L D cohort genes)
     = filter (\<lambda>g. 5 \<le> length (paired_samples D cohort g)) genes
   \<and> (\<forall>g rho p. (g, rho, p) \<in> set (gene_loop L D cohort genes) \<longrightarrow>
        (rho, p) = spearmanr L (map fst (paired_samples D cohort g))
                               (map snd (paired_samples D cohort g)))
   \<and> (\<forall>r. analyze_cancer L D c = Inr (Some r) \<longrightarrow>
        (\<forall>g. g \<in> Gene ` set (results_df r) \<longleftrightarrow>
              g \<in> set (crispr_index D)
              \<and> 5 \<le> length (paired_samples D (common_models D c) g)))"
proof (intro conjI allI impI)
  show "map fst (gene_loop L D cohort genes)
     = filter (\<lambda>g. 5 \<le> length (paired_samples D cohort g)) genes"
    by (rule gene_loop_genes_paired)
next
  fix g rho p
  assume "(g, rho, p) \<in> set (gene_loop L D cohort genes)"
  then show "(rho, p) = spearmanr L (map fst (paired_samples D cohort g))
                               (map snd (paired_samples D cohort g))"
    by (rule gene_loop_record)
next
  fix r g
  assume r: "analyze_cancer L D c = Inr (Some r)"
  have "Gene ` set (results_df r) = set_mset (mset (map Gene (results_df r)))" by simp
  also have "\<dots> = set_mset (mset (filter (\<lambda>g. 5 \<le> length (paired_samples D (common_models D c) g))
                 (crispr_index D)))"
    by (simp only: results_df_genes [OF r] length_paired_samples)
  finally show "g \<in> Gene ` set (results_df r) \<longleftrightarrow>
              g \<in> set (crispr_index D)
              \<and> 5 \<le> length (paired_samples D (common_models D c) g)"
    by simp
qed

theorem association_record_iff_witness:
  "map fst (gene_loop demo_lib demo_tables demo_melanoma (crispr_index demo_tables))
     = [''KRAS (3845)'', ''A1CF (29974)'']
   \<and> length (paired_samples demo_tables demo_melanoma ''TP53 (7157)'') = 3
   \<and> length (paired_samples demo_tables demo_melanoma ''KRAS (3845)'') = 25
   \<and> (''KRAS (3845)'', Some (- 1 / 2), Some (1 / 2))
       \<in> set (gene_loop demo_lib demo_tables demo_melanoma (crispr_index demo_tables))
   \<and> spearmanr demo_lib (map fst (paired_samples demo_tables demo_melanoma ''KRAS (3845)''))
                         (map snd (paired_samples demo_tables demo_melanoma ''KRAS (3845)''))
       = (Some (- 1 / 2), Some (1 / 2))
   \<and> analyze_cancer demo_lib demo_tables ''Melanoma'' = Inr (Some (demo_output ''Melanoma''))
   \<and> ''KRAS (3845)'' \<in> Gene ` set (results_df (demo_output ''Melanoma''))
   \<and> ''TP53 (7157)'' \<notin> Gene ` set (results_df (demo_output ''Melanoma''))"
proof -
  note t = association_record_iff [of demo_lib demo_tables demo_melanoma
      "crispr_index demo_tables" "''Melanoma''"]
  have idx: "crispr_index demo_tables = [''TP53 (7157)'', ''KRAS (3845)'', ''A1CF (29974)'']"
    by (simp add: demo_tables_def)
  have l3: "length (paired_samples demo_tables demo_melanoma ''TP53 (7157)'') = 3"
    by (rule demo_paired_TP53)
  have l25: "length (paired_samples demo_tables demo_melanoma ''KRAS (3845)'') = 25"
    by (simp add: demo_paired_KRAS demo_melanoma_sorted)
  have l25': "length (paired_samples demo_tables demo_melanoma ''A1CF (29974)'') = 25"
    by (simp add: demo_paired_A1CF demo_melanoma_sorted)
  from t have "map fst (gene_loop demo_lib demo_tables demo_melanoma (crispr_index demo_tables))
     = filter (\<lambda>g. 5 \<le> length (paired_samples demo_tables demo_melanoma g))
         (crispr_index demo_tables)" by blast
  then have genes: "map fst (gene_loop demo_lib demo_tables demo_melanoma (crispr_index demo_tables))
     = [''KRAS (3845)'', ''A1CF (29974)'']"
    unfolding idx by (simp add: l3 l25 l25')
  have mem: "(''KRAS (3845)'', Some (- 1 / 2), Some (1 / 2))
       \<in> set (gene_loop demo_lib demo_tables demo_melanoma (crispr_index demo_tables))"
    unfolding demo_gene_loop by simp
  with t have sp: "(Some (- 1 / 2), Some (1 / 2))
      = spearmanr demo_lib (map fst (paired_samples demo_tables demo_melanoma ''KRAS (3845)''))
                         (map snd (paired_samples demo_tables demo_melanoma ''KRAS (3845)''))"
    by blast
  from t demo_analyze_Melanoma
  have iff: "g \<in> Gene ` set (results_df (demo_output ''Melanoma'')) \<longleftrightarrow>
              g \<in> set (crispr_index demo_tables)
              \<and> 5 \<le> length (paired_samples demo_tables (common_models demo_tables ''Melanoma'') g)"
    for g by blast
  have k: "''KRAS (3845)'' \<in> Gene ` set (results_df (demo_output ''Melanoma''))"
    unfolding iff demo_common_melanoma idx by (simp add: l25)
  have p: "''TP53 (7157)'' \<notin> Gene ` set (results_df (demo_output ''Melanoma''))"
    unfolding iff demo_common_melanoma idx by (simp add: l3)
  from genes l3 l25 mem sp [symmetric] demo_analyze_Melanoma k p show ?thesis by blast
qed

section \<open>The correction is applied per cancer type\<close>

text \<open>
  Claim C4. For a processed cancer type the corrector is called on the list of raw
  p-values of that cancer type's own records; it returns one adjusted value per record,
  and the rows of the table are the records paired position by position with those
  adjusted values (in the order the final sort gives them). Every table a run writes is
  the table of a single cancer type's iteration. The Benjamini-Hochberg correction
  itself returns as many values as it is given, each at the position of its raw
  p-value: however the input is reordered, the adjusted value of a p-value is the same.
\<close>

theorem correction_per_cancer:
  "(analyze_cancer L D c = Inr (Some r) \<longrightarrow>
      length (multipletests L (map (\<lambda>(g, rho, p). p)
                (gene_loop L D (common_models D c) (crispr_index D))))
        = length (gene_loop L D (common_models D c) (crispr_index D))
      \<and> mset (results_df r)
        = mset (map2 mk_row
                 (gene_loop L D (common_models D c) (crispr_index D))
                 (multipletests L (map (\<lambda>(g, rho, p). p)
                    (gene_loop L D (common_models D c) (crispr_index D))))))
   \<and> (\<forall>out f. run_pipeline L D = Inr out \<and> f \<in> set (files out) \<longrightarrow>
         (\<exists>c'\<in>set (unique_cancers D). \<exists>r'.
             analyze_cancer L D c' = Inr (Some r') \<and> f = (out_file r', results_df r')))
   \<and> length (fdr_bh ps) = length ps
   \<and> ((\<forall>p\<in>set ps. 0 \<le> p) \<and> mset ps' = mset ps \<and> i < length ps \<and> j < length ps'
        \<and> ps' ! j = ps ! i \<longrightarrow>
      fdr_bh ps' ! j = fdr_bh ps ! i)"
proof (intro conjI allI impI)
  assume r: "analyze_cancer L D c = Inr (Some r)"
  from analyze_cancer_SomeD(3) [OF r]
  show "length (multipletests L (map (\<lambda>(g, rho, p). p)
                   (gene_loop L D (common_models D c) (crispr_index D))))
           = length (gene_loop L D (common_models D c) (crispr_index D))" .
  show "mset (results_df r)
           = mset (map2 mk_row
                    (gene_loop L D (common_models D c) (crispr_index D))
                    (multipletests L (map (\<lambda>(g, rho, p). p)
                       (gene_loop L D (common_models D c) (crispr_index D)))))"
    unfolding analyze_cancer_SomeD(4) [OF r] by (rule sort_values_mset)
next
  fix out f
  assume "run_pipeline L D = Inr out \<and> f \<in> set (files out)"
  then have run: "run_pipeline L D = Inr out" and f: "f \<in> set (files out)" by simp_all
  from f show "\<exists>c'\<in>set (unique_cancers D). \<exists>r'.
                   analyze_cancer L D c' = Inr (Some r') \<and> f = (out_file r', results_df r')"
    unfolding run_pipeline_files [OF run] .
next
  show "length (fdr_bh ps) = length ps" by (rule fdr_bh_length)
next
  assume h: "(\<forall>p\<in>set ps. 0 \<le> p) \<and> mset ps' = mset ps \<and> i < length ps \<and> j < length ps'
        \<and> ps' ! j = ps ! i"
  then have "\<forall>p\<in>set ps. 0 \<le> p" "mset ps' = mset ps" "i < length ps" "j < length ps'"
    "ps' ! j = ps ! i" by simp_all
  then show "fdr_bh ps' ! j = fdr_bh ps ! i" by (rule fdr_bh_aligned)
qed

theorem correction_per_cancer_witness:
  "analyze_cancer demo_lib demo_tables ''Melanoma'' = Inr (Some (demo_output ''Melanoma''))
   \<and> multipletests demo_lib [Some (1 / 2), Some (1 / 4)] = [Some (1 / 2), Some (1 / 2)]
   \<and> mset (results_df (demo_output ''Melanoma''))
       = mset (map2 mk_row
                [(''KRAS (3845)'', Some (- 1 / 2), Some (1 / 2)),
                 (''A1CF (29974)'', Some (1 / 4), Some (1 / 4))]
                (multipletests demo_lib [Some (1 / 2), Some (1 / 4)]))
   \<and> run_pipeline demo_lib demo_tables = Inr demo_run
   \<and> (out_file (demo_output ''Melanoma''), results_df (demo_output ''Melanoma''))
       \<in> set (files demo_run)
   \<and> (\<exists>c' r'. c' \<in> set (unique_cancers demo_tables)
          \<and> analyze_cancer demo_lib demo_tables c' = Inr (Some r')
          \<and> (out_file (demo_output ''Melanoma''), results_df (demo_output ''Melanoma''))
              = (out_file r', results_df r'))
   \<and> fdr_bh [1 / 2, 1 / 4] = [1 / 2, 1 / 2]
   \<and> fdr_bh [1 / 4, 1 / 2] ! 1 = fdr_bh [1 / 2, 1 / 4] ! 0"
proof -
  note t = correction_per_cancer [of demo_lib demo_tables "''Melanoma''" "demo_output ''Melanoma''"
      "[1 / 2, 1 / 4]" "[1 / 4, 1 / 2]" 0 1]
  have recs: "gene_loop demo_lib demo_tables (common_models demo_tables ''Melanoma'')
                (crispr_index demo_tables)
              = [(''KRAS (3845)'', Some (- 1 / 2), Some (1 / 2)),
                 (''A1CF (29974)'', Some (1 / 4), Some (1 / 4))]"
    unfolding demo_common_melanoma by (rule demo_gene_loop)
  have ps: "map (\<lambda>(g, rho, p). p)
              [(''KRAS (3845)'', Some (- 1 / 2), Some (1 / 2)),
               (''A1CF (29974)'', Some (1 / 4), Some (1 / 4 :: real))]
            = [Some (1 / 2), Some (1 / 4)]" by simp
  from t demo_analyze_Melanoma have "mset (results_df (demo_output ''Melanoma''))
       = mset (map2 mk_row
                (gene_loop demo_lib demo_tables (common_models demo_tables ''Melanoma'')
                   (crispr_index demo_tables))
                (multipletests demo_lib (map (\<lambda>(g, rho, p). p)
                   (gene_loop demo_lib demo_tables (common_models demo_tables ''Melanoma'')
                      (crispr_index demo_tables)))))"
    by blast
  then have m: "mset (results_df (demo_output ''Melanoma''))
       = mset (map2 mk_row
                [(''KRAS (3845)'', Some (- 1 / 2), Some (1 / 2)),
                 (''A1CF (29974)'', Some (1 / 4), Some (1 / 4))]
                (multipletests demo_lib [Some (1 / 2), Some (1 / 4)]))"
    unfolding recs ps .
  have f: "(out_file (demo_output ''Melanoma''), results_df (demo_output ''Melanoma''))
       \<in> set (files demo_run)" by (simp add: demo_run_def)
  from t demo_run_pipeline f
  have "\<exists>c'\<in>set (unique_cancers demo_tables). \<exists>r'.
          analyze_cancer demo_lib demo_tables c' = Inr (Some r')
          \<and> (out_file (demo_output ''Melanoma''), results_df (demo_output ''Melanoma''))
              = (out_file r', results_df r')"
    by blast
  then have e: "\<exists>c' r'. c' \<in> set (unique_cancers demo_tables)
          \<and> analyze_cancer demo_lib demo_tables c' = Inr (Some r')
          \<and> (out_file (demo_output ''Melanoma''), results_df (demo_output ''Melanoma''))
              = (out_file r', results_df r')"
    by blast
  have h: "(\<forall>p\<in>set [1 / 2, 1 / 4 :: real]. 0 \<le> p) \<and> mset [1 / 4, 1 / 2 :: real] = mset [1 / 2, 1 / 4]
        \<and> (0::nat) < length [1 / 2, 1 / 4 :: real] \<and> (1::nat) < length [1 / 4, 1 / 2 :: real]
        \<and> [1 / 4, 1 / 2 :: real] ! 1 = [1 / 2, 1 / 4] ! 0"
    by simp
  from t h have a: "fdr_bh [1 / 4, 1 / 2] ! 1 = fdr_bh [1 / 2, 1 / 4] ! 0" by blast
  from demo_analyze_Melanoma demo_multipletests m demo_run_pipeline f e demo_fdr_bh a
  show ?thesis by blast
qed

section \<open>Ranking\<close>

text \<open>
  Claim C5. The table written for a processed cancer type is in ascending order of
  adjusted p-value (missing values last). The top positive genes of its summary row are
  the genes of the first min(3, n) rows of an arrangement of the table that is descending
  in the coefficient, and the top negative genes those of an arrangement that is
  ascending in the coefficient (missing coefficients last in both).
\<close>

theorem ranking_order:
  assumes "analyze_cancer L D c = Inr (Some r)"
  shows "sorted_wrt na_last_le (map FDR (results_df r))
         \<and> (\<exists>top rest.
               mset (top @ rest) = mset (results_df r)
               \<and> sorted_wrt na_last_ge (map Spearman_r (top @ rest))
               \<and> length top = min 3 (length (results_df r))
               \<and> Top_Positive (summary r) = join ''; '' (map Gene top))
         \<and> (\<exists>top rest.
               mset (top @ rest) = mset (results_df r)
               \<and> sorted_wrt na_last_le (map Spearman_r (top @ rest))
               \<and> length top = min 3 (length (results_df r))
               \<and> Top_Negative (summary r) = join ''; '' (map Gene top))"
proof (intro conjI)
  show "sorted_wrt na_last_le (map FDR (results_df r))"
    unfolding analyze_cancer_SomeD(4) [OF assms] by (rule sort_values_sorted)
next
  let ?s = "sort_values_desc Spearman_r (results_df r)"
  have "mset (take 3 ?s @ drop 3 ?s) = mset (results_df r)" by simp
  moreover have "sorted_wrt na_last_ge (map Spearman_r (take 3 ?s @ drop 3 ?s))"
    by (simp add: sort_values_desc_sorted)
  moreover have "length (take 3 ?s) = min 3 (length (results_df r))" by simp
  moreover note analyze_cancer_SomeD(7) [OF assms]
  ultimately show "\<exists>top rest.
               mset (top @ rest) = mset (results_df r)
               \<and> sorted_wrt na_last_ge (map Spearman_r (top @ rest))
               \<and> length top = min 3 (length (results_df r))
               \<and> Top_Positive (summary r) = join ''; '' (map Gene top)" by blast
next
  let ?s = "sort_values Spearman_r (results_df r)"
  have "mset (take 3 ?s @ drop 3 ?s) = mset (results_df r)" by simp
  moreover have "sorted_wrt na_last_le (map Spearman_r (take 3 ?s @ drop 3 ?s))"
    by (simp add: sort_values_sorted)
  moreover have "length (take 3 ?s) = min 3 (length (results_df r))" by simp
  moreover note analyze_cancer_SomeD(8) [OF assms]
  ultimately show "\<exists>top rest.
               mset (top @ rest) = mset (results_df r)
               \<and> sorted_wrt na_last_le (map Spearman_r (top @ rest))
               \<and> length top = min 3 (length (results_df r))
               \<and> Top_Negative (summary r) = join ''; '' (map Gene top)" by blast
qed

theorem ranking_order_witness:
  "analyze_cancer demo_lib demo_tables ''Melanoma'' = Inr (Some (demo_output ''Melanoma''))
   \<and> sorted_wrt na_last_le (map FDR (results_df (demo_output ''Melanoma'')))
   \<and> (\<exists>top rest.
         mset (top @ rest) = mset (results_df (demo_output ''Melanoma''))
         \<and> sorted_wrt na_last_ge (map Spearman_r (top @ rest))
         \<and> length top = min 3 (length (results_df (demo_output ''Melanoma'')))
         \<and> ''A1CF (29974); KRAS (3845)'' = join ''; '' (map Gene top))
   \<and> (\<exists>top rest.
         mset (top @ rest) = mset (results_df (demo_output ''Melanoma''))
         \<and> sorted_wrt na_last_le (map Spearman_r (top @ rest))
         \<and> length top = min 3 (length (results_df (demo_output ''Melanoma'')))
         \<and> ''KRAS (3845); A1CF (29974)'' = join ''; '' (map Gene top))"
proof -
  have p: "Top_Positive (summary (demo_output ''Melanoma'')) = ''A1CF (29974); KRAS (3845)''"
    and n: "Top_Negative (summary (demo_output ''Melanoma'')) = ''KRAS (3845); A1CF (29974)''"
    by (simp_all add: demo_output_def)
  from ranking_order [OF demo_analyze_Melanoma] demo_analyze_Melanoma
  show ?thesis unfolding p n by (rule conjI [rotated])
qed

section \<open>The immune proxy\<close>



section \<open>The cohort selector is deterministic\<close>

text \<open>
  Claim C7. The cohort is sorted, has no repetition, and consists of exactly the
  identifiers that are a fitness column, an expression row and the identifier of an
  annotation row whose disease equals the label up to case. Python does not fix the
  order in which a set is listed, and it may differ from run to run; whatever
  enumeration \<open>e\<close> of the intersection a run gets, sorting it yields the same list.
\<close>

theorem cohort_selector_deterministic:
  "sorted (common_models D c)
   \<and> distinct (common_models D c)
   \<and> set (common_models D c)
       = {m. m \<in> set (crispr_columns D) \<and> m \<in> set (omics_index D)
             \<and> (\<exists>l. (m, Some l) \<in> set (model_rows D) \<and> lower l = lower c)}
   \<and> (\<forall>e. distinct e
           \<and> set e = set (crispr_columns D) \<inter> set (omics_index D) \<inter> set (cancer_models D c)
         \<longrightarrow> sort e = common_models D c)"
proof (intro conjI allI impI)
  show "sorted (common_models D c)" "distinct (common_models D c)"
    by (rule common_models_props)+
  show "set (common_models D c)
       = {m. m \<in> set (crispr_columns D) \<and> m \<in> set (omics_index D)
             \<and> (\<exists>l. (m, Some l) \<in> set (model_rows D) \<and> lower l = lower c)}"
    unfolding common_models_props(3) using cancer_models_iff [of _ D c] by blast
next
  fix e
  assume "distinct e
           \<and> set e = set (crispr_columns D) \<inter> set (omics_index D) \<inter> set (cancer_models D c)"
  then show "sort e = common_models D c"
    unfolding common_models_def by (simp add: sort_enum)
qed

theorem cohort_selector_deterministic_witness:
  "distinct (rev demo_melanoma)
   \<and> set (rev demo_melanoma)
       = set (crispr_columns demo_tables) \<inter> set (omics_index demo_tables)
         \<inter> set (cancer_models demo_tables ''Melanoma'')
   \<and> sort (rev demo_melanoma) = common_models demo_tables ''Melanoma''
   \<and> common_models demo_tables ''Melanoma'' = demo_melanoma"
proof -
  note t = cohort_selector_deterministic [of demo_tables "''Melanoma''"]
  have d: "distinct (rev demo_melanoma)" by (simp add: demo_melanoma_sorted)
  have "set (common_models demo_tables ''Melanoma'')
        = set (crispr_columns demo_tables) \<inter> set (omics_index demo_tables)
          \<inter> set (cancer_models demo_tables ''Melanoma'')"
    by (rule common_models_props)
  then have s: "set (rev demo_melanoma)
       = set (crispr_columns demo_tables) \<inter> set (omics_index demo_tables)
         \<inter> set (cancer_models demo_tables ''Melanoma'')"
    unfolding demo_common_melanoma by simp
  from t d s have "sort (rev demo_melanoma) = common_models demo_tables ''Melanoma''"
    by blast
  with d s demo_common_melanoma show ?thesis by blast
qed

section \<open>The coefficient of a perfectly anti-correlated gene\<close>

text \<open>
  The scenario of the spec's section 8: when the fitness vector is strictly decreasing
  as a function of the immune proxy vector (and not constant), the rank vectors mirror
  each other and the coefficient is exactly -1 in real arithmetic, for a cohort of any
  size.
\<close>

lemma sum_list_reflect: "sum_list (map (\<lambda>v. c - v) a) = real (length a) * c - sum_list (a :: real list)"
  by (induction a) (simp_all add: algebra_simps)

lemma mean_reflect:
  assumes "a \<noteq> []"
  shows "mean (map (\<lambda>v. c - v) a) = c - mean a"
proof -
  from assms have "real (length a) \<noteq> 0" by simp
  then show ?thesis
    by (simp add: mean_def sum_list_reflect diff_divide_distrib)
qed

lemma sum_list_neg: "sum_list (map (\<lambda>u. - f u) a) = - sum_list (map f (a :: real list) :: real list)"
  by (induction a) simp_all

lemma cov_self: "cov a a = sum_list (map (\<lambda>u. (u - mean a)\<^sup>2) a)"
  by (simp add: cov_def zip_same_conv_map power2_eq_square o_def)

lemma cov_reflect:
  assumes "a \<noteq> []"
  shows "cov a (map (\<lambda>v. c - v) a) = - cov a a"
    and "cov (map (\<lambda>v. c - v) a) (map (\<lambda>v. c - v) a) = cov a a"
proof -
  have z: "zip a (map (\<lambda>v. c - v) a) = map (\<lambda>u. (u, c - u)) a"
    by (induction a) simp_all
  have "cov a (map (\<lambda>v. c - v) a) = sum_list (map (\<lambda>u. - ((u - mean a)\<^sup>2)) a)"
    unfolding cov_def mean_reflect [OF assms] z
    by (simp add: o_def power2_eq_square algebra_simps)
  also have "\<dots> = - sum_list (map (\<lambda>u. (u - mean a)\<^sup>2) a)"
    by (rule sum_list_neg)
  finally show "cov a (map (\<lambda>v. c - v) a) = - cov a a" by (simp add: cov_self)
  have "cov (map (\<lambda>v. c - v) a) (map (\<lambda>v. c - v) a)
        = sum_list (map (\<lambda>u. (u - mean a)\<^sup>2) a)"
    unfolding cov_self mean_reflect [OF assms]
    by (simp add: o_def power2_eq_square algebra_simps)
  then show "cov (map (\<lambda>v. c - v) a) (map (\<lambda>v. c - v) a) = cov a a"
    by (simp add: cov_self)
qed

lemma cov_self_nonneg: "0 \<le> cov a a"
  unfolding cov_self by (rule sum_list_nonneg) auto

lemma pearson_reflect:
  assumes "a \<noteq> []" "cov a a \<noteq> 0"
  shows "pearson a (map (\<lambda>v. c - v) a) = Some (- 1)"
proof -
  from cov_self_nonneg [of a] assms(2) have pos: "0 < cov a a" by simp
  then have "sqrt (cov a a * cov a a) = cov a a" by simp
  with pos assms show ?thesis
    by (simp add: pearson_def cov_reflect)
qed


lemma filter_count_transfer:
  assumes "length x = length y" and "\<forall>j<length x. P (x ! j) = Q (y ! j)"
  shows "length (filter P x) = length (filter Q y)"
proof -
  have "{i. i < length x \<and> P (x ! i)} = {i. i < length y \<and> Q (y ! i)}"
    using assms by auto
  then show ?thesis by (simp add: length_filter_conv_card)
qed

lemma filter_count_compl:
  fixes a :: real
  shows "length (filter (\<lambda>v. a \<le> v) xs) = length xs - length (filter (\<lambda>v. v < a) xs)"
    and "length (filter (\<lambda>v. a < v) xs) = length xs - length (filter (\<lambda>v. v \<le> a) xs)"
proof -
  have "length (filter (\<lambda>v. v < a) xs) + length (filter (\<lambda>v. \<not> v < a) xs) = length xs"
    by (rule sum_length_filter_compl)
  moreover have "(\<lambda>v. \<not> v < a) = (\<lambda>v. a \<le> v)" by (auto simp: fun_eq_iff)
  ultimately show "length (filter (\<lambda>v. a \<le> v) xs) = length xs - length (filter (\<lambda>v. v < a) xs)"
    by simp
  have "length (filter (\<lambda>v. v \<le> a) xs) + length (filter (\<lambda>v. \<not> v \<le> a) xs) = length xs"
    by (rule sum_length_filter_compl)
  moreover have "(\<lambda>v. \<not> v \<le> a) = (\<lambda>v. a < v)" by (auto simp: fun_eq_iff)
  ultimately show "length (filter (\<lambda>v. a < v) xs) = length xs - length (filter (\<lambda>v. v \<le> a) xs)"
    by simp
qed

lemma rankdata_length [simp]: "length (rankdata xs) = length xs"
  by (simp add: rankdata_def)

lemma rankdata_nth:
  "i < length xs \<Longrightarrow>
   rankdata xs ! i = (real (length (filter (\<lambda>v. v < xs ! i) xs))
                      + real (length (filter (\<lambda>v. v \<le> xs ! i) xs)) + 1) / 2"
  by (simp add: rankdata_def)

lemma rankdata_anti:
  assumes len: "length x = length y"
    and anti: "\<forall>i<length x. \<forall>j<length x. (x ! i < x ! j) = (y ! j < y ! i)"
  shows "rankdata y = map (\<lambda>v. real (length x) + 1 - v) (rankdata x)"
proof (rule nth_equalityI)
  show "length (rankdata y) = length (map (\<lambda>v. real (length x) + 1 - v) (rankdata x))"
    using len by simp
next
  fix i assume "i < length (rankdata y)"
  then have i: "i < length x" "i < length y" using len by simp_all
  let ?lt = "length (filter (\<lambda>v. v < x ! i) x)"
  let ?le = "length (filter (\<lambda>v. v \<le> x ! i) x)"
  have "length (filter (\<lambda>v. v < y ! i) y) = length (filter (\<lambda>v. x ! i < v) x)"
    using len anti i by (intro filter_count_transfer) auto
  then have lt: "length (filter (\<lambda>v. v < y ! i) y) = length x - ?le"
    by (simp add: filter_count_compl)
  have "\<forall>j<length y. (y ! j \<le> y ! i) = (x ! i \<le> x ! j)"
    using len anti i by (auto simp: not_less [symmetric])
  then have "length (filter (\<lambda>v. v \<le> y ! i) y) = length (filter (\<lambda>v. x ! i \<le> v) x)"
    using len by (intro filter_count_transfer) auto
  then have le: "length (filter (\<lambda>v. v \<le> y ! i) y) = length x - ?lt"
    by (simp add: filter_count_compl)
  have b1: "?le \<le> length x" and b2: "?lt \<le> length x" by simp_all
  have "rankdata y ! i = (real (length x - ?le) + real (length x - ?lt) + 1) / 2"
    using i by (simp add: rankdata_nth lt le)
  also have "\<dots> = real (length x) + 1 - (real ?lt + real ?le + 1) / 2"
    using b1 b2 by (simp add: of_nat_diff field_simps)
  also have "\<dots> = map (\<lambda>v. real (length x) + 1 - v) (rankdata x) ! i"
    using i by (simp add: rankdata_nth)
  finally show "rankdata y ! i = map (\<lambda>v. real (length x) + 1 - v) (rankdata x) ! i" .
qed

lemma filter_count_mono:
  "(\<forall>v\<in>set xs. P v \<longrightarrow> Q v) \<Longrightarrow> length (filter P xs) \<le> length (filter Q xs)"
  by (induction xs) auto

lemma filter_count_strict:
  "(\<forall>v\<in>set xs. P v \<longrightarrow> Q v) \<Longrightarrow> \<exists>v\<in>set xs. Q v \<and> \<not> P v \<Longrightarrow>
   length (filter P xs) < length (filter Q xs)"
proof (induction xs)
  case Nil
  then show ?case by simp
next
  case (Cons a xs)
  from Cons.prems(1) have mono: "length (filter P xs) \<le> length (filter Q xs)"
    by (intro filter_count_mono) simp
  show ?case
  proof (cases "Q a \<and> \<not> P a")
    case True
    with mono show ?thesis by simp
  next
    case False
    with Cons.prems have "\<exists>v\<in>set xs. Q v \<and> \<not> P v" by auto
    with Cons.IH Cons.prems(1) have "length (filter P xs) < length (filter Q xs)" by simp
    with Cons.prems(1) show ?thesis by auto
  qed
qed

lemma rankdata_strict:
  assumes i: "i < length xs" and j: "j < length xs" and lt: "xs ! i < xs ! j"
  shows "rankdata xs ! i < rankdata xs ! j"
proof -
  have xi: "xs ! i \<in> set xs" using i by simp
  have "length (filter (\<lambda>v. v < xs ! i) xs) < length (filter (\<lambda>v. v \<le> xs ! i) xs)"
    using xi by (intro filter_count_strict) auto
  moreover have "length (filter (\<lambda>v. v \<le> xs ! i) xs) \<le> length (filter (\<lambda>v. v < xs ! j) xs)"
    using lt by (intro filter_count_mono) auto
  moreover have "length (filter (\<lambda>v. v < xs ! j) xs) \<le> length (filter (\<lambda>v. v \<le> xs ! j) xs)"
    by (intro filter_count_mono) auto
  ultimately show ?thesis using i j by (simp add: rankdata_nth)
qed

lemma cov_self_zero:
  assumes "cov a a = 0" and "i < length a" and "j < length a"
  shows "a ! i = a ! j"
proof -
  have "\<forall>u\<in>set (map (\<lambda>u. (u - mean a)\<^sup>2) a). u = 0"
    using assms(1) unfolding cov_self
    by (subst (asm) sum_list_nonneg_eq_0_iff) auto
  then have "\<forall>u\<in>set a. u = mean a" by auto
  with assms(2,3) show ?thesis by (metis nth_mem)
qed

lemma spearman_rho_anticorrelated:
  assumes len: "length x = length y"
    and anti: "\<forall>i<length x. \<forall>j<length x. (x ! i < x ! j) = (y ! j < y ! i)"
    and nonconst: "\<exists>i<length x. \<exists>j<length x. x ! i \<noteq> x ! j"
  shows "spearman_rho x y = Some (- 1)"
proof -
  from nonconst obtain i j where ij: "i < length x" "j < length x" "x ! i < x ! j"
    by (metis linorder_neqE_linordered_idom)
  then have "rankdata x ! i < rankdata x ! j" by (rule rankdata_strict)
  with cov_self_zero [of "rankdata x" i j] ij have nz: "cov (rankdata x) (rankdata x) \<noteq> 0"
    by auto
  from ij(1) have "x \<noteq> []" by (cases x) simp_all
  then have ne: "rankdata x \<noteq> []" by (simp add: rankdata_def)
  show ?thesis
    unfolding spearman_rho_def rankdata_anti [OF len anti]
    using ne nz by (rule pearson_reflect)
qed

lemma spearman_rho_thirty_samples:
  "spearman_rho (map real [0..<30]) (map (\<lambda>k. - real k) [0..<30]) = Some (- 1)"
proof (rule spearman_rho_anticorrelated)
  show "length (map real [0..<30]) = length (map (\<lambda>k. - real k) [0..<30])" by simp
  show "\<forall>i<length (map real [0..<30]). \<forall>j<length (map real [0..<30]).
          (map real [0..<30] ! i < map real [0..<30] ! j)
          = (map (\<lambda>k. - real k) [0..<30] ! j < map (\<lambda>k. - real k) [0..<30] ! i)"
    by (simp del: upt_Suc)
  have "(0::nat) < length (map real [0..<30])" "(1::nat) < length (map real [0..<30])"
    "map real [0..<30] ! 0 \<noteq> map real [0..<30] ! 1"
    by (simp_all del: upt_Suc)
  then show "\<exists>i<length (map real [0..<30]). \<exists>j<length (map real [0..<30]).
          map real [0..<30] ! i \<noteq> map real [0..<30] ! j"
    by blast
qed

section \<open>Properties of the Jaccard index\<close>

lemma jaccard_union_pos:
  "\<not> (a = [] \<and> b = []) \<Longrightarrow> 0 < card (set a \<union> set b)"
  by (cases a; cases b) (simp_all add: card_gt_0_iff)

text \<open>
  Claim C9. \<open>jaccard\<close> is total and never divides by zero: on two empty lists the
  guard returns 0.0; on any other pair the size of the union, the divisor, is positive,
  so a number is returned; and the result does not depend on the order of the two
  arguments.
\<close>

theorem jaccard_total_symmetric:
  "(a = [] \<and> b = [] \<longrightarrow> jaccard a b = Inr 0)
   \<and> (\<not> (a = [] \<and> b = []) \<longrightarrow>
        0 < card (set a \<union> set b)
        \<and> jaccard a b = Inr (real (card (set a \<inter> set b)) / real (card (set a \<union> set b))))
   \<and> jaccard a b \<noteq> Inl ZeroDivisionError
   \<and> (\<exists>r. jaccard a b = Inr r)
   \<and> jaccard a b = jaccard b a"
proof -
  have empty: "a = [] \<and> b = [] \<longrightarrow> jaccard a b = Inr 0"
    by (simp add: jaccard_def)
  have nonempty: "\<not> (a = [] \<and> b = []) \<longrightarrow>
        0 < card (set a \<union> set b)
        \<and> jaccard a b = Inr (real (card (set a \<inter> set b)) / real (card (set a \<union> set b)))"
  proof
    assume ne: "\<not> (a = [] \<and> b = [])"
    from jaccard_union_pos [OF ne] have pos: "0 < card (set a \<union> set b)" .
    with ne show "0 < card (set a \<union> set b)
        \<and> jaccard a b = Inr (real (card (set a \<inter> set b)) / real (card (set a \<union> set b)))"
      by (auto simp: jaccard_def Let_def)
  qed
  have sym: "jaccard a b = jaccard b a"
    by (simp add: jaccard_def Let_def Int_commute Un_commute conj_commute)
  from empty nonempty have ret: "\<exists>r. jaccard a b = Inr r"
    by (cases "a = [] \<and> b = []") blast+
  then have "jaccard a b \<noteq> Inl ZeroDivisionError" by auto
  with empty nonempty ret sym show ?thesis by blast
qed

theorem jaccard_total_symmetric_witness:
  "jaccard ([]::string list) [] = Inr 0
   \<and> 0 < card (set [''TP53'', ''KRAS''] \<union> set [''KRAS'', ''MYC''])
   \<and> jaccard [''TP53'', ''KRAS''] [''KRAS'', ''MYC''] = Inr (1 / 3)
   \<and> jaccard [''KRAS'', ''MYC''] [''TP53'', ''KRAS''] = Inr (1 / 3)"
proof -
  let ?a = "[''TP53'', ''KRAS'']" and ?b = "[''KRAS'', ''MYC'']"
  have i: "card (set ?a \<inter> set ?b) = 1"
  proof -
    have "set ?a \<inter> set ?b = {''KRAS''}" by auto
    then show ?thesis by simp
  qed
  have u: "card (set ?a \<union> set ?b) = 3"
  proof -
    have "set ?a \<union> set ?b = {''TP53'', ''KRAS'', ''MYC''}" by auto
    then show ?thesis by simp
  qed
  have ne: "\<not> (?a = [] \<and> ?b = [])" by simp
  from jaccard_total_symmetric [of ?a ?b] ne
  have v: "jaccard ?a ?b = Inr (real (card (set ?a \<inter> set ?b)) / real (card (set ?a \<union> set ?b)))"
    and s: "jaccard ?a ?b = jaccard ?b ?a"
    by blast+
  from v have v': "jaccard ?a ?b = Inr (1 / 3)"
    unfolding i u by simp
  from jaccard_total_symmetric [of "[]::string list" "[]"]
  have e: "jaccard ([]::string list) [] = Inr 0" by blast
  have p: "0 < card (set ?a \<union> set ?b)" unfolding u by simp
  from s v' have v'': "jaccard ?b ?a = Inr (1 / 3)" by (rule subst)
  from e p v' v'' show ?thesis by blast
qed

section \<open>The summary row\<close>



end
